theory Spec2Isabelle
  imports Main
begin

chapter \<open>OracleMint: card name resolution, the Scryfall client and the bulk sync\<close>

text \<open>
  A shallow embedding of the core of the repository: the name normalizer
  (\<^verbatim>\<open>src/lib/utils/card-names.ts\<close>), the card resolver, the Scryfall client and the
  bulk synchronisation. The first part holds the model, one section per source file,
  each definition named after the function it embeds; the second part holds the
  properties.
\<close>

section \<open>JavaScript strings\<close>

text \<open>
  A JavaScript string is a sequence of UTF-16 code units; a code unit is modelled by its
  value, a natural number. \<open>ascii\<close> reads an ASCII literal as such a string.
\<close>

type_synonym jsstring = "nat list"

definition ascii :: "string \<Rightarrow> jsstring" where
  "ascii s = map of_char s"

text \<open>
  The class \<^verbatim>\<open>\s\<close> of a regular expression and the characters removed by
  \<^verbatim>\<open>String.prototype.trim\<close>: the white space and line terminator code points of
  ECMAScript (TAB, LF, VT, FF, CR, space, NBSP, U+1680, U+2000 to U+200A, U+2028, U+2029,
  U+202F, U+205F, U+3000, U+FEFF).
\<close>

definition isWhiteSpace :: "nat \<Rightarrow> bool" where
  "isWhiteSpace c \<longleftrightarrow>
     (9 \<le> c \<and> c \<le> 13) \<or> c = 32 \<or> c = 160 \<or> c = 5760 \<or> (8192 \<le> c \<and> c \<le> 8202) \<or>
     c = 8232 \<or> c = 8233 \<or> c = 8239 \<or> c = 8287 \<or> c = 12288 \<or> c = 65279"

text \<open>The class \<^verbatim>\<open>\w\<close> (no \<^verbatim>\<open>u\<close> or \<^verbatim>\<open>i\<close> flag): \<^verbatim>\<open>[A-Za-z0-9_]\<close>.\<close>

definition isWordChar :: "nat \<Rightarrow> bool" where
  "isWordChar c \<longleftrightarrow>
     (48 \<le> c \<and> c \<le> 57) \<or> (65 \<le> c \<and> c \<le> 90) \<or> c = 95 \<or> (97 \<le> c \<and> c \<le> 122)"

definition isAscii :: "nat \<Rightarrow> bool" where
  "isAscii c \<longleftrightarrow> c < 128"

definition isAsciiUpper :: "nat \<Rightarrow> bool" where
  "isAsciiUpper c \<longleftrightarrow> 65 \<le> c \<and> c \<le> 90"

definition asciiLower :: "nat \<Rightarrow> nat" where
  "asciiLower c = (if isAsciiUpper c then c + 32 else c)"

text \<open>
  \<^verbatim>\<open>toLowerCase()\<close> and \<^verbatim>\<open>normalize('NFD')\<close> are built-ins of the JavaScript engine,
  driven by the Unicode character database. On a string of ASCII code units their result
  is fixed by the standard (A to Z are mapped to a to z, nothing else changes, and ASCII
  text is already in normal form D), and the model computes it. On any other string the
  result is read from \<open>unicode\<close>, the engine's tables, which the model takes as a parameter.
\<close>

record unicode =
  ucd_toLowerCase :: "jsstring \<Rightarrow> jsstring"
  ucd_normalizeNFD :: "jsstring \<Rightarrow> jsstring"

definition toLowerCase :: "unicode \<Rightarrow> jsstring \<Rightarrow> jsstring" where
  "toLowerCase U s = (if list_all isAscii s then map asciiLower s else ucd_toLowerCase U s)"

definition normalizeNFD :: "unicode \<Rightarrow> jsstring \<Rightarrow> jsstring" where
  "normalizeNFD U s = (if list_all isAscii s then s else ucd_normalizeNFD U s)"

text \<open>\<^verbatim>\<open>s.trim()\<close>\<close>

definition trim :: "jsstring \<Rightarrow> jsstring" where
  "trim s = rev (dropWhile isWhiteSpace (rev (dropWhile isWhiteSpace s)))"

text \<open>\<^verbatim>\<open>s.startsWith(p)\<close>, \<^verbatim>\<open>s.endsWith(p)\<close>, \<^verbatim>\<open>s.includes(p)\<close>\<close>

definition startsWith :: "jsstring \<Rightarrow> jsstring \<Rightarrow> bool" where
  "startsWith s p \<longleftrightarrow> take (length p) s = p"

definition endsWith :: "jsstring \<Rightarrow> jsstring \<Rightarrow> bool" where
  "endsWith s p \<longleftrightarrow> startsWith (rev s) (rev p)"

fun includes_str :: "jsstring \<Rightarrow> jsstring \<Rightarrow> bool" where
  "includes_str [] p = (p = [])"
| "includes_str (c # cs) p = (startsWith (c # cs) p \<or> includes_str cs p)"

text \<open>
  \<^verbatim>\<open>s.split(sep)\<close> for a non-empty separator: the string is scanned from the left, each
  occurrence of the separator closes a piece, and the scan resumes after the occurrence.
  \<open>split_from sep k piece rest\<close> has \<open>k\<close> code units of a separator still to skip and
  \<open>piece\<close> (reversed) collected since the last separator.
\<close>

fun split_from :: "jsstring \<Rightarrow> nat \<Rightarrow> jsstring \<Rightarrow> jsstring \<Rightarrow> jsstring list" where
  "split_from sep k piece [] = [rev piece]"
| "split_from sep (Suc k) piece (c # cs) = split_from sep k piece cs"
| "split_from sep 0 piece (c # cs) =
     (if startsWith (c # cs) sep then rev piece # split_from sep (length sep - 1) [] cs
      else split_from sep 0 (c # piece) cs)"

definition split_str :: "jsstring \<Rightarrow> jsstring \<Rightarrow> jsstring list" where
  "split_str s sep = split_from sep 0 [] s"

text \<open>
  \<^verbatim>\<open>[...new Set(xs)]\<close>: a Set keeps its elements in insertion order, and inserting an
  element it already holds changes nothing.
\<close>

definition array_from_Set :: "'a list \<Rightarrow> 'a list" where
  "array_from_Set xs = foldl (\<lambda>seen x. if x \<in> set seen then seen else seen @ [x]) [] xs"

section \<open>The name normalizer (\<^verbatim>\<open>src/lib/utils/card-names.ts\<close>)\<close>

text \<open>\<^verbatim>\<open>.replace(/[\u0300-\u036f]/g, '')\<close>\<close>

definition removeCombiningMarks :: "jsstring \<Rightarrow> jsstring" where
  "removeCombiningMarks s = filter (\<lambda>c. \<not> (768 \<le> c \<and> c \<le> 879)) s"

text \<open>
  \<^verbatim>\<open>.replace(/['']/g, "'")\<close>: in the source file both members of the class are the
  ASCII apostrophe, code unit 39.
\<close>

definition normalizeApostrophes :: "jsstring \<Rightarrow> jsstring" where
  "normalizeApostrophes s = map (\<lambda>c. if c = 39 \<or> c = 39 then 39 else c) s"

text \<open>\<^verbatim>\<open>.replace(/[^\w\s'/-]/g, '')\<close>\<close>

definition removeSpecialChars :: "jsstring \<Rightarrow> jsstring" where
  "removeSpecialChars s =
     filter (\<lambda>c. isWordChar c \<or> isWhiteSpace c \<or> c = 39 \<or> c = 47 \<or> c = 45) s"

text \<open>\<^verbatim>\<open>.replace(/\s+/g, ' ')\<close>: every maximal run of white space becomes one space.\<close>

function collapseWhitespace :: "jsstring \<Rightarrow> jsstring" where
  "collapseWhitespace [] = []"
| "collapseWhitespace (c # cs) =
     (if isWhiteSpace c then 32 # collapseWhitespace (dropWhile isWhiteSpace cs)
      else c # collapseWhitespace cs)"
  by pat_completeness auto
termination
  by (relation "measure length") (auto simp: less_Suc_eq_le length_dropWhile_le)

definition normalizeName :: "unicode \<Rightarrow> jsstring \<Rightarrow> jsstring" where
  "normalizeName U name =
     trim (collapseWhitespace (removeSpecialChars (normalizeApostrophes
       (removeCombiningMarks (normalizeNFD U (toLowerCase U name))))))"

definition parseCardNameVariants :: "unicode \<Rightarrow> jsstring \<Rightarrow> jsstring list" where
  "parseCardNameVariants U input =
     (let normalized = normalizeName U input;
          variants = [normalized];
          variants = (if includes_str normalized (ascii ''//'')
                      then variants @ map trim (split_str normalized (ascii ''//''))
                      else variants)
      in array_from_Set variants)"

section \<open>Scryfall records and the store\<close>

text \<open>
  The records of the Scryfall API (\<^verbatim>\<open>ScryfallCardFace\<close>, \<^verbatim>\<open>ScryfallCard\<close>,
  \<^verbatim>\<open>ScryfallRuling\<close> of the client). An optional field is an \<open>option\<close>; numbers and
  dates are carried through the code unchanged and are modelled as integers and as the
  strings they are read from.
\<close>

record ScryfallCardFace =
  face_name :: jsstring
  face_mana_cost :: "jsstring option"
  face_type_line :: jsstring
  face_oracle_text :: "jsstring option"
  face_power :: "jsstring option"
  face_toughness :: "jsstring option"
  face_loyalty :: "jsstring option"
  face_defense :: "jsstring option"

record ScryfallCard =
  sc_id :: jsstring
  sc_oracle_id :: jsstring
  sc_name :: jsstring
  sc_layout :: jsstring
  sc_mana_cost :: "jsstring option"
  sc_cmc :: int
  sc_type_line :: jsstring
  sc_oracle_text :: "jsstring option"
  sc_colors :: "jsstring list option"
  sc_color_identity :: "jsstring list"
  sc_keywords :: "jsstring list"
  sc_released_at :: "jsstring option"
  sc_rulings_uri :: jsstring
  sc_card_faces :: "ScryfallCardFace list option"

record ScryfallRuling =
  sr_oracle_id :: jsstring
  sr_source :: jsstring
  sr_published_at :: jsstring
  sr_comment :: jsstring

text \<open>
  The tables of the store (the Prisma models \<^verbatim>\<open>Card\<close>, \<^verbatim>\<open>CardFace\<close>, \<^verbatim>\<open>Ruling\<close> and
  \<^verbatim>\<open>SyncRun\<close>), each a list of rows in insertion order. The key \<^verbatim>\<open>id\<close> of a card row is
  given out by the store, here from a counter.
\<close>

record Card =
  card_id :: nat
  card_oracleId :: jsstring
  card_scryfallId :: jsstring
  card_name :: jsstring
  card_normalizedName :: jsstring
  card_layout :: jsstring
  card_manaCost :: "jsstring option"
  card_cmc :: int
  card_typeLine :: jsstring
  card_oracleText :: "jsstring option"
  card_colors :: "jsstring list"
  card_colorIdentity :: "jsstring list"
  card_keywords :: "jsstring list"
  card_releasedAt :: "jsstring option"

record CardFace =
  cf_cardId :: nat
  cf_faceIndex :: nat
  cf_name :: jsstring
  cf_normalizedName :: jsstring
  cf_manaCost :: "jsstring option"
  cf_typeLine :: jsstring
  cf_oracleText :: "jsstring option"
  cf_power :: "jsstring option"
  cf_toughness :: "jsstring option"
  cf_loyalty :: "jsstring option"
  cf_defense :: "jsstring option"

record Ruling =
  ruling_oracleId :: jsstring
  ruling_publishedAt :: jsstring
  ruling_comment :: jsstring
  ruling_source :: jsstring

datatype SyncStatus = DOWNLOADING | PROCESSING | PAUSED | COMPLETED | FAILED

record SyncRun =
  run_id :: jsstring
  run_type :: jsstring
  run_status :: SyncStatus
  run_processed :: int
  run_failed :: int
  run_totalRecords :: "int option"
  run_lastOracleId :: "jsstring option"
  run_blobUrl :: "jsstring option"
  run_blobSize :: "int option"
  run_errorMessage :: "string option"
  run_completedAt :: "int option"

record database =
  db_cards :: "Card list"
  db_cardFaces :: "CardFace list"
  db_rulings :: "Ruling list"
  db_syncRuns :: "SyncRun list"
  db_nextId :: nat

text \<open>
  A call of the store can throw (a violated constraint, a lost connection). Which upserts
  the store refuses is a parameter of the model, a predicate on the card and face tables
  and the incoming record; a refused upsert throws at its first call of the store,
  \<^verbatim>\<open>db.card.upsert\<close>, and leaves the store as it was. The calls of an upsert are not in a
  transaction: one that threw at a later call would leave the card row written and the
  face rows partly replaced. Such a failure is not among those that the parameter
  describes.
\<close>

type_synonym store_refuses = "Card list \<Rightarrow> CardFace list \<Rightarrow> ScryfallCard \<Rightarrow> bool"

text \<open>\<^verbatim>\<open>db.card.upsert({ where: { oracleId }, create, update })\<close>\<close>

definition db_card_upsert ::
  "jsstring \<Rightarrow> (nat \<Rightarrow> Card) \<Rightarrow> (Card \<Rightarrow> Card) \<Rightarrow> database \<Rightarrow> Card \<times> database" where
  "db_card_upsert oid create update db =
     (case find (\<lambda>c. card_oracleId c = oid) (db_cards db) of
        Some old \<Rightarrow>
          (update old,
           db\<lparr>db_cards := map (\<lambda>c. if card_oracleId c = oid then update old else c) (db_cards db)\<rparr>)
      | None \<Rightarrow>
          (create (db_nextId db),
           db\<lparr>db_cards := db_cards db @ [create (db_nextId db)],
              db_nextId := Suc (db_nextId db)\<rparr>))"

text \<open>\<^verbatim>\<open>db.cardFace.deleteMany({ where: { cardId } })\<close> and \<^verbatim>\<open>db.cardFace.create\<close>\<close>

definition db_cardFace_deleteMany :: "nat \<Rightarrow> database \<Rightarrow> database" where
  "db_cardFace_deleteMany cid db =
     db\<lparr>db_cardFaces := filter (\<lambda>f. cf_cardId f \<noteq> cid) (db_cardFaces db)\<rparr>"

definition db_cardFace_create :: "CardFace \<Rightarrow> database \<Rightarrow> database" where
  "db_cardFace_create f db = db\<lparr>db_cardFaces := db_cardFaces db @ [f]\<rparr>"

text \<open>\<^verbatim>\<open>db.ruling.deleteMany({ where: { oracleId } })\<close> and \<^verbatim>\<open>db.ruling.create\<close>\<close>

definition db_ruling_deleteMany :: "jsstring \<Rightarrow> database \<Rightarrow> database" where
  "db_ruling_deleteMany oid db =
     db\<lparr>db_rulings := filter (\<lambda>r. ruling_oracleId r \<noteq> oid) (db_rulings db)\<rparr>"

definition db_ruling_create :: "Ruling \<Rightarrow> database \<Rightarrow> database" where
  "db_ruling_create r db = db\<lparr>db_rulings := db_rulings db @ [r]\<rparr>"

text \<open>
  \<^verbatim>\<open>scryfallCard.released_at ? new Date(scryfallCard.released_at) : null\<close>: an absent date
  and the empty string both give \<^verbatim>\<open>null\<close>.
\<close>

definition releasedAt :: "ScryfallCard \<Rightarrow> jsstring option" where
  "releasedAt sc =
     (case sc_released_at sc of None \<Rightarrow> None | Some d \<Rightarrow> if d = [] then None else Some d)"

text \<open>
  The \<^verbatim>\<open>create\<close> and \<^verbatim>\<open>update\<close> arguments of the card upsert, the same in both callers. An
  optional field that the record does not carry is \<^verbatim>\<open>undefined\<close> in the argument: the store
  then creates the row with \<^verbatim>\<open>null\<close> in the column, and on an update leaves the column as
  it is.
\<close>

definition card_create :: "unicode \<Rightarrow> ScryfallCard \<Rightarrow> nat \<Rightarrow> Card" where
  "card_create U sc i =
     \<lparr>card_id = i,
      card_oracleId = sc_oracle_id sc,
      card_scryfallId = sc_id sc,
      card_name = sc_name sc,
      card_normalizedName = normalizeName U (sc_name sc),
      card_layout = sc_layout sc,
      card_manaCost = sc_mana_cost sc,
      card_cmc = sc_cmc sc,
      card_typeLine = sc_type_line sc,
      card_oracleText = sc_oracle_text sc,
      card_colors = (case sc_colors sc of Some cs \<Rightarrow> cs | None \<Rightarrow> []),
      card_colorIdentity = sc_color_identity sc,
      card_keywords = sc_keywords sc,
      card_releasedAt = releasedAt sc\<rparr>"

definition card_update :: "unicode \<Rightarrow> ScryfallCard \<Rightarrow> Card \<Rightarrow> Card" where
  "card_update U sc old =
     old\<lparr>card_scryfallId := sc_id sc,
         card_name := sc_name sc,
         card_normalizedName := normalizeName U (sc_name sc),
         card_layout := sc_layout sc,
         card_manaCost := (case sc_mana_cost sc of Some m \<Rightarrow> Some m | None \<Rightarrow> card_manaCost old),
         card_cmc := sc_cmc sc,
         card_typeLine := sc_type_line sc,
         card_oracleText := (case sc_oracle_text sc of Some t \<Rightarrow> Some t | None \<Rightarrow> card_oracleText old),
         card_colors := (case sc_colors sc of Some cs \<Rightarrow> cs | None \<Rightarrow> []),
         card_colorIdentity := sc_color_identity sc,
         card_keywords := sc_keywords sc,
         card_releasedAt := releasedAt sc\<rparr>"

text \<open>The \<^verbatim>\<open>data\<close> of \<^verbatim>\<open>db.cardFace.create\<close> for the face at index \<open>i\<close>.\<close>

definition face_data :: "unicode \<Rightarrow> nat \<Rightarrow> nat \<Rightarrow> ScryfallCardFace \<Rightarrow> CardFace" where
  "face_data U cid i face =
     \<lparr>cf_cardId = cid,
      cf_faceIndex = i,
      cf_name = face_name face,
      cf_normalizedName = normalizeName U (face_name face),
      cf_manaCost = face_mana_cost face,
      cf_typeLine = face_type_line face,
      cf_oracleText = face_oracle_text face,
      cf_power = face_power face,
      cf_toughness = face_toughness face,
      cf_loyalty = face_loyalty face,
      cf_defense = face_defense face\<rparr>"

text \<open>
  The loop \<^verbatim>\<open>for (let i = 0; i < card_faces.length; i++) db.cardFace.create(...)\<close>, from
  index \<open>i\<close> on.
\<close>

fun create_faces :: "unicode \<Rightarrow> nat \<Rightarrow> nat \<Rightarrow> ScryfallCardFace list \<Rightarrow> database \<Rightarrow> database" where
  "create_faces U cid i [] db = db"
| "create_faces U cid i (face # faces) db =
     create_faces U cid (Suc i) faces (db_cardFace_create (face_data U cid i face) db)"

text \<open>
  \<^verbatim>\<open>if (scryfallCard.card_faces && scryfallCard.card_faces.length > 0) { deleteMany; create
  each }\<close>, the same in both callers.
\<close>

definition handle_faces :: "unicode \<Rightarrow> ScryfallCard \<Rightarrow> Card \<Rightarrow> database \<Rightarrow> database" where
  "handle_faces U sc card' db =
     (case sc_card_faces sc of
        None \<Rightarrow> db
      | Some faces \<Rightarrow>
          if length faces > 0
          then create_faces U (card_id card') 0 faces (db_cardFace_deleteMany (card_id card') db)
          else db)"

section \<open>The Scryfall client\<close>

text \<open>The exceptions of the code, and the part of a \<^verbatim>\<open>Response\<close> that the code reads.\<close>

datatype error =
    ScryfallError string nat
  | NetworkError string
  | JsonError
  | StoreError
  | Error string

datatype body =
    CardJson ScryfallCard
  | RulingsJson "ScryfallRuling list option"
  | NotJson

record response =
  resp_status :: nat
  resp_retryAfter :: "jsstring option"
  resp_body :: body

definition response_ok :: "response \<Rightarrow> bool" where
  "response_ok r \<longleftrightarrow> 200 \<le> resp_status r \<and> resp_status r \<le> 299"

text \<open>
  \<^verbatim>\<open>parseInt(s, 10)\<close>: leading white space is skipped, a sign is read, and the longest run
  of decimal digits that follows is the value; \<open>None\<close> is \<^verbatim>\<open>NaN\<close>, the result when no digit
  follows. The value is the integer that the digits denote. From \<^verbatim>\<open>2^53\<close> on the engine holds
  in its place the nearest number it can represent; the code hands the value to a timer and
  to nothing else, and what a timer does with the delay it is asked for is a parameter of
  the model (\<open>eng_timer\<close> below), which takes the rounding in.
\<close>

definition isDigit :: "nat \<Rightarrow> bool" where
  "isDigit c \<longleftrightarrow> 48 \<le> c \<and> c \<le> 57"

definition digits_value :: "jsstring \<Rightarrow> int" where
  "digits_value ds = foldl (\<lambda>a d. 10 * a + (int d - 48)) 0 ds"

definition parseInt :: "jsstring \<Rightarrow> int option" where
  "parseInt s =
     (let s1 = dropWhile isWhiteSpace s;
          negative = (s1 \<noteq> [] \<and> hd s1 = 45);
          s2 = (if s1 \<noteq> [] \<and> (hd s1 = 45 \<or> hd s1 = 43) then tl s1 else s1);
          ds = takeWhile isDigit s2
      in if ds = [] then None
         else Some (if negative then - digits_value ds else digits_value ds))"

text \<open>
  Time and the network. \<open>now\<close> is the value of \<^verbatim>\<open>Date.now()\<close>, in milliseconds, and
  \<open>lastRequest\<close> the field of the module-level \<^verbatim>\<open>rateLimiter\<close>. The network is a parameter:
  \<open>net k\<close> tells how the \<open>k\<close>-th call of \<^verbatim>\<open>fetch\<close> settles and after how many milliseconds.
  \<open>timers\<close> counts the calls of \<^verbatim>\<open>sleep\<close> so far. \<open>trace\<close> records, in order, when each
  request departs (when \<^verbatim>\<open>fetch\<close> is called) and when it settles.
\<close>

datatype event = Request int | Settled int

record client_state =
  now :: int
  lastRequest :: int
  requests :: nat
  timers :: nat
  trace :: "event list"

datatype fetch_result = Responds response | Rejects string

record net_reply =
  reply_latency :: int
  reply_result :: fetch_result

type_synonym network = "nat \<Rightarrow> net_reply"

definition minDelay :: int where
  "minDelay = 100"

text \<open>
  The engine that runs the code is a parameter, in the two respects in which the clock
  depends on it. \<open>eng_timer E k ms\<close> is the time by \<^verbatim>\<open>Date.now()\<close> that has passed when the
  \<open>k\<close>-th call of \<^verbatim>\<open>sleep\<close>, that is \<^verbatim>\<open>setTimeout(resolve, ms)\<close>, asked for \<open>ms\<close>
  milliseconds (\<open>None\<close> is \<^verbatim>\<open>NaN\<close>), returns: a timer may fire late, or early by the clock,
  and it has its own reading of a delay that is negative, \<^verbatim>\<open>NaN\<close> or very large.
  \<open>eng_lag E k\<close> is the time by the clock that the engine takes from the return of
  \<^verbatim>\<open>throttle()\<close> to the call of \<^verbatim>\<open>fetch\<close> for the \<open>k\<close>-th request. Nothing is assumed of
  either here. Elsewhere the clock advances while a request is awaited and between the
  calls of the client.
\<close>

record engine =
  eng_timer :: "nat \<Rightarrow> int option \<Rightarrow> int"
  eng_lag :: "nat \<Rightarrow> int"

text \<open>\<^verbatim>\<open>await sleep(ms)\<close>\<close>

definition sleep :: "engine \<Rightarrow> int option \<Rightarrow> client_state \<Rightarrow> client_state" where
  "sleep E ms st = st\<lparr>now := now st + eng_timer E (timers st) ms, timers := Suc (timers st)\<rparr>"

text \<open>
  \<^verbatim>\<open>rateLimiter.throttle()\<close>, in its two halves: up to the \<^verbatim>\<open>await\<close> (the wait it decides
  on, if any), and from the \<^verbatim>\<open>await\<close> on, where \<open>lastRequest\<close> is set to the clock as it
  is then, whatever time the timer took.
\<close>

definition throttle_wait :: "client_state \<Rightarrow> int option" where
  "throttle_wait st =
     (let elapsed = now st - lastRequest st
      in if elapsed < minDelay then Some (minDelay - elapsed) else None)"

definition throttle_finish :: "client_state \<Rightarrow> client_state" where
  "throttle_finish st = st\<lparr>lastRequest := now st\<rparr>"

definition throttle :: "engine \<Rightarrow> client_state \<Rightarrow> client_state" where
  "throttle E st =
     throttle_finish (case throttle_wait st of Some d \<Rightarrow> sleep E (Some d) st | None \<Rightarrow> st)"

text \<open>
  One \<^verbatim>\<open>fetch\<close> under its \<^verbatim>\<open>AbortController\<close>: the request departs; it settles with the
  network's reply when that comes before the timeout, and with an \<^verbatim>\<open>AbortError\<close> at the
  timeout otherwise. (Every caller in the repository leaves the timeout at its default of
  30000 ms.)
\<close>

datatype settled = Response response | AbortError | OtherError string

definition settle :: "int \<Rightarrow> client_state \<Rightarrow> client_state" where
  "settle d st = st\<lparr>now := now st + d, trace := trace st @ [Settled (now st + d)]\<rparr>"

definition fetch_call ::
  "engine \<Rightarrow> network \<Rightarrow> int \<Rightarrow> client_state \<Rightarrow> settled \<times> client_state" where
  "fetch_call E net timeout st =
     (let reply = net (requests st);
          departs = now st + eng_lag E (requests st);
          st1 = st\<lparr>now := departs, requests := Suc (requests st),
                   trace := trace st @ [Request departs]\<rparr>
      in if reply_latency reply < timeout
         then (case reply_result reply of
                 Responds r \<Rightarrow> (Response r, settle (reply_latency reply) st1)
               | Rejects m \<Rightarrow> (OtherError m, settle (reply_latency reply) st1))
         else (AbortError, settle timeout st1))"

text \<open>
  \<^verbatim>\<open>parseInt(response.headers.get('Retry-After') || '1', 10) * 1000\<close>: an absent or empty
  header reads as \<^verbatim>\<open>'1'\<close>.
\<close>

definition retryAfter_ms :: "jsstring option \<Rightarrow> int option" where
  "retryAfter_ms header =
     map_option (\<lambda>retryAfter. retryAfter * 1000)
       (parseInt (case header of None \<Rightarrow> ascii ''1'' | Some h \<Rightarrow> if h = [] then ascii ''1'' else h))"

text \<open>
  The loop \<^verbatim>\<open>for (let attempt = 0; attempt < retries; attempt++)\<close> of \<^verbatim>\<open>fetchWithBackoff\<close>,
  from \<open>attempt\<close> on; \<^verbatim>\<open>continue\<close> and the end of the \<^verbatim>\<open>catch\<close> block both go on with
  \<open>attempt + 1\<close>.
\<close>

function fetch_attempts ::
  "engine \<Rightarrow> network \<Rightarrow> int \<Rightarrow> int \<Rightarrow> int \<Rightarrow> client_state \<Rightarrow> (error + response) \<times> client_state" where
  "fetch_attempts E net retries timeout attempt st =
     (if attempt < retries
      then
        (case fetch_call E net timeout (throttle E st) of
           (Response r, st1) \<Rightarrow>
             if resp_status r = 429
             then fetch_attempts E net retries timeout (attempt + 1)
                    (sleep E (retryAfter_ms (resp_retryAfter r)) st1)
             else (Inr r, st1)
         | (AbortError, st1) \<Rightarrow> (Inl (ScryfallError ''Request timeout'' 408), st1)
         | (OtherError m, st1) \<Rightarrow>
             if attempt = retries - 1 then (Inl (NetworkError m), st1)
             else fetch_attempts E net retries timeout (attempt + 1)
                    (sleep E (Some (1000 * (attempt + 1))) st1))
      else (Inl (ScryfallError ''Max retries exceeded'' 503), st))"
  by pat_completeness auto
termination
  by (relation "measure (\<lambda>(E, net, retries, timeout, attempt, st). nat (retries - attempt))") auto

definition fetchWithBackoff ::
  "engine \<Rightarrow> network \<Rightarrow> int \<Rightarrow> int \<Rightarrow> client_state \<Rightarrow> (error + response) \<times> client_state" where
  "fetchWithBackoff E net retries timeout st = fetch_attempts E net retries timeout 0 st"

text \<open>
  Callers that use the client one after the other: each either calls \<^verbatim>\<open>fetchWithBackoff\<close>
  (with its options \<^verbatim>\<open>retries\<close> and \<^verbatim>\<open>timeout\<close>) and awaits it, or lets time pass.
\<close>

datatype action = Fetch int int | Idle int

fun run_actions :: "engine \<Rightarrow> network \<Rightarrow> action list \<Rightarrow> client_state \<Rightarrow> client_state" where
  "run_actions E net [] st = st"
| "run_actions E net (Fetch retries timeout # as) st =
     run_actions E net as (snd (fetchWithBackoff E net retries timeout st))"
| "run_actions E net (Idle d # as) st = run_actions E net as (st\<lparr>now := now st + d\<rparr>)"
section \<open>The card resolver\<close>

text \<open>
  The resolver reaches Scryfall through \<^verbatim>\<open>fetchWithBackoff\<close>. For the resolver the model
  takes what that call yields for each request, a response or the exception it throws,
  as a parameter; the retry loop itself is modelled with the client above.
\<close>

datatype request =
    CardsNamed bool jsstring
  | CardRulings jsstring

type_synonym remote = "request \<Rightarrow> error + response"

definition getCardByName :: "remote \<Rightarrow> jsstring \<Rightarrow> bool \<Rightarrow> error + ScryfallCard option" where
  "getCardByName fetch name fuzzy =
     (case fetch (CardsNamed fuzzy name) of
        Inl e \<Rightarrow> Inl e
      | Inr r \<Rightarrow>
          if resp_status r = 404 then Inr None
          else if \<not> response_ok r then Inl (ScryfallError ''Failed to fetch card'' (resp_status r))
          else (case resp_body r of CardJson sc \<Rightarrow> Inr (Some sc) | _ \<Rightarrow> Inl JsonError))"

definition getRulingsByCardId :: "remote \<Rightarrow> jsstring \<Rightarrow> error + ScryfallRuling list" where
  "getRulingsByCardId fetch cardId =
     (case fetch (CardRulings cardId) of
        Inl e \<Rightarrow> Inl e
      | Inr r \<Rightarrow>
          if \<not> response_ok r
          then (if resp_status r = 404 then Inr []
                else Inl (ScryfallError ''Failed to fetch rulings'' (resp_status r)))
          else (case resp_body r of
                  RulingsJson d \<Rightarrow> Inr (case d of Some rs \<Rightarrow> rs | None \<Rightarrow> [])
                | _ \<Rightarrow> Inl JsonError))"

datatype ResolveStatus = exact | normalized | face_match | fuzzy | ambiguous | not_found

record CardWithRelations =
  cwr_card :: Card
  cwr_faces :: "CardFace list"
  cwr_rulings :: "Ruling list"

record Candidate =
  cand_name :: jsstring
  cand_oracleId :: jsstring
  cand_typeLine :: jsstring

record ResolveResult =
  res_status :: ResolveStatus
  res_card :: "CardWithRelations option"
  res_candidates :: "Candidate list option"
  res_matchedFace :: "nat option"
  res_input :: jsstring

text \<open>\<^verbatim>\<open>include: { faces: true, rulings: true }\<close> and \<^verbatim>\<open>select: { name, oracleId, typeLine }\<close>\<close>

definition include_relations :: "database \<Rightarrow> Card \<Rightarrow> CardWithRelations" where
  "include_relations db c =
     \<lparr>cwr_card = c,
      cwr_faces = filter (\<lambda>f. cf_cardId f = card_id c) (db_cardFaces db),
      cwr_rulings = filter (\<lambda>r. ruling_oracleId r = card_oracleId c) (db_rulings db)\<rparr>"

definition select_candidate :: "Card \<Rightarrow> Candidate" where
  "select_candidate c =
     \<lparr>cand_name = card_name c, cand_oracleId = card_oracleId c, cand_typeLine = card_typeLine c\<rparr>"

text \<open>\<^verbatim>\<open>db.card.findUnique({ where: { oracleId }, include })\<close>\<close>

definition findCardByOracleId :: "database \<Rightarrow> jsstring \<Rightarrow> CardWithRelations option" where
  "findCardByOracleId db oid =
     map_option (include_relations db) (find (\<lambda>c. card_oracleId c = oid) (db_cards db))"

definition upsertCardFromScryfall ::
  "unicode \<Rightarrow> store_refuses \<Rightarrow> ScryfallCard \<Rightarrow> database \<Rightarrow> (Card \<times> database) option" where
  "upsertCardFromScryfall U refuses scryfallCard db =
     (if refuses (db_cards db) (db_cardFaces db) scryfallCard then None
      else
        (let (card', db1) =
               db_card_upsert (sc_oracle_id scryfallCard) (card_create U scryfallCard)
                 (card_update U scryfallCard) db
         in Some (card', handle_faces U scryfallCard card' db1)))"

definition ruling_data :: "jsstring \<Rightarrow> ScryfallRuling \<Rightarrow> Ruling" where
  "ruling_data oid r =
     \<lparr>ruling_oracleId = oid, ruling_publishedAt = sr_published_at r,
      ruling_comment = sr_comment r, ruling_source = sr_source r\<rparr>"

definition upsertRulings :: "jsstring \<Rightarrow> ScryfallRuling list \<Rightarrow> database \<Rightarrow> database" where
  "upsertRulings oid rs db =
     foldl (\<lambda>d r. db_ruling_create (ruling_data oid r) d) (db_ruling_deleteMany oid db) rs"

definition fetchAndCacheFromScryfall ::
  "unicode \<Rightarrow> remote \<Rightarrow> store_refuses \<Rightarrow> jsstring \<Rightarrow> database \<Rightarrow> (error + ResolveResult) \<times> database" where
  "fetchAndCacheFromScryfall U fetch refuses input db =
     (case getCardByName fetch input True of
        Inl e \<Rightarrow> (Inl e, db)
      | Inr None \<Rightarrow>
          (Inr \<lparr>res_status = not_found, res_card = None, res_candidates = None,
                res_matchedFace = None, res_input = input\<rparr>, db)
      | Inr (Some scryfallCard) \<Rightarrow>
          (case upsertCardFromScryfall U refuses scryfallCard db of
             None \<Rightarrow> (Inl StoreError, db)
           | Some (card', db1) \<Rightarrow>
               (let db2 =
                      (case getRulingsByCardId fetch (sc_id scryfallCard) of
                         Inl e \<Rightarrow> db1
                       | Inr rulings \<Rightarrow>
                           if length rulings > 0
                           then upsertRulings (sc_oracle_id scryfallCard) rulings db1
                           else db1);
                    fullCard = findCardByOracleId db2 (card_oracleId card')
                in (Inr \<lparr>res_status = fuzzy, res_card = fullCard, res_candidates = None,
                         res_matchedFace = None, res_input = input\<rparr>, db2))))"

text \<open>
  The loop over the variants in step 2: the first variant, in order, that some face row
  carries as its normalized name, and the first such row.
\<close>

fun find_face :: "database \<Rightarrow> jsstring list \<Rightarrow> CardFace option" where
  "find_face db [] = None"
| "find_face db (variant # variants) =
     (case find (\<lambda>f. cf_normalizedName f = variant) (db_cardFaces db) of
        Some face \<Rightarrow> Some face
      | None \<Rightarrow> find_face db variants)"

text \<open>
  The candidates of step 3: \<^verbatim>\<open>findMany({ where: { normalizedName: { startsWith: prefix } },
  take: 10 })\<close>.
\<close>

definition prefix_candidates :: "database \<Rightarrow> jsstring \<Rightarrow> Card list" where
  "prefix_candidates db primaryNormalized =
     take 10 (filter (\<lambda>c. startsWith (card_normalizedName c)
                (take (max 3 (length primaryNormalized div 2)) primaryNormalized)) (db_cards db))"

definition resolveCardName ::
  "unicode \<Rightarrow> remote \<Rightarrow> store_refuses \<Rightarrow> jsstring \<Rightarrow> database \<Rightarrow> (error + ResolveResult) \<times> database" where
  "resolveCardName U fetch refuses input db =
     (let variants = parseCardNameVariants U input;
          primaryNormalized = hd variants
      in case find (\<lambda>c. card_normalizedName c = primaryNormalized) (db_cards db) of
           Some card' \<Rightarrow>
             (Inr \<lparr>res_status = exact, res_card = Some (include_relations db card'),
                   res_candidates = None, res_matchedFace = None, res_input = input\<rparr>, db)
         | None \<Rightarrow>
             (case find_face db variants of
                Some face \<Rightarrow>
                  (Inr \<lparr>res_status = face_match,
                        res_card = map_option (include_relations db)
                          (find (\<lambda>c. card_id c = cf_cardId face) (db_cards db)),
                        res_candidates = None, res_matchedFace = Some (cf_faceIndex face),
                        res_input = input\<rparr>, db)
              | None \<Rightarrow>
                  (let candidates = prefix_candidates db primaryNormalized;
                       fallback = fetchAndCacheFromScryfall U fetch refuses input db;
                       disambiguate =
                         (if length candidates > 1
                          then (Inr \<lparr>res_status = ambiguous, res_card = None,
                                     res_candidates = Some (map select_candidate candidates),
                                     res_matchedFace = None, res_input = input\<rparr>, db)
                          else fallback)
                   in if length candidates > 0
                      then (case find (\<lambda>c. normalizeName U (card_name c) = primaryNormalized)
                                   candidates of
                              None \<Rightarrow> disambiguate
                            | Some exactCandidate \<Rightarrow>
                                (case findCardByOracleId db (card_oracleId exactCandidate) of
                                   Some card' \<Rightarrow>
                                     (Inr \<lparr>res_status = normalized, res_card = Some card',
                                           res_candidates = None, res_matchedFace = None,
                                           res_input = input\<rparr>, db)
                                 | None \<Rightarrow> disambiguate))
                      else fallback)))"

text \<open>\<^verbatim>\<open>resolveCardNames\<close>: the inputs are resolved one after the other.\<close>

fun resolveCardNames ::
  "unicode \<Rightarrow> remote \<Rightarrow> store_refuses \<Rightarrow> jsstring list \<Rightarrow> database \<Rightarrow> (error + ResolveResult list) \<times> database" where
  "resolveCardNames U fetch refuses [] db = (Inr [], db)"
| "resolveCardNames U fetch refuses (input # inputs) db =
     (case resolveCardName U fetch refuses input db of
        (Inl e, db1) \<Rightarrow> (Inl e, db1)
      | (Inr result, db1) \<Rightarrow>
          (case resolveCardNames U fetch refuses inputs db1 of
             (Inl e, db2) \<Rightarrow> (Inl e, db2)
           | (Inr results, db2) \<Rightarrow> (Inr (result # results), db2)))"

section \<open>The bulk sync\<close>

text \<open>
  \<^verbatim>\<open>upsertCard\<close>: \<open>None\<close> when the upsert throws, otherwise the store after it.
\<close>

definition upsertCard ::
  "unicode \<Rightarrow> store_refuses \<Rightarrow> ScryfallCard \<Rightarrow> database \<Rightarrow> database option" where
  "upsertCard U refuses scryfallCard db =
     (if refuses (db_cards db) (db_cardFaces db) scryfallCard then None
      else
        (let (card', db1) =
               db_card_upsert (sc_oracle_id scryfallCard) (card_create U scryfallCard)
                 (card_update U scryfallCard) db
         in Some (handle_faces U scryfallCard card' db1)))"

text \<open>
  \<^verbatim>\<open>upsertCardBatch\<close>: the loop over the cards, with the counters \<open>success\<close> and
  \<open>failures\<close> and the store; an upsert that throws is counted and the loop goes on.
\<close>

fun upsertCardBatch_loop ::
  "unicode \<Rightarrow> store_refuses \<Rightarrow> ScryfallCard list \<Rightarrow> int \<times> int \<times> database \<Rightarrow> int \<times> int \<times> database" where
  "upsertCardBatch_loop U refuses [] (success, failures, db) = (success, failures, db)"
| "upsertCardBatch_loop U refuses (c # cs) (success, failures, db) =
     (case upsertCard U refuses c db of
        Some db' \<Rightarrow> upsertCardBatch_loop U refuses cs (success + 1, failures, db')
      | None \<Rightarrow> upsertCardBatch_loop U refuses cs (success, failures + 1, db))"

definition upsertCardBatch ::
  "unicode \<Rightarrow> store_refuses \<Rightarrow> ScryfallCard list \<Rightarrow> database \<Rightarrow> int \<times> int \<times> database" where
  "upsertCardBatch U refuses cards db = upsertCardBatch_loop U refuses cards (0, 0, db)"

definition BATCH_SIZE :: nat where
  "BATCH_SIZE = 500"

definition MAX_RUNTIME_MS :: int where
  "MAX_RUNTIME_MS = 55000"

record SyncProgress =
  sp_syncRunId :: jsstring
  sp_status :: SyncStatus
  sp_processed :: int
  sp_totalRecords :: "int option"
  sp_lastOracleId :: "jsstring option"

text \<open>\<^verbatim>\<open>db.syncRun.update({ where: { id }, data })\<close>\<close>

definition db_syncRun_update :: "jsstring \<Rightarrow> (SyncRun \<Rightarrow> SyncRun) \<Rightarrow> database \<Rightarrow> database" where
  "db_syncRun_update rid data db =
     db\<lparr>db_syncRuns := map (\<lambda>r. if run_id r = rid then data r else r) (db_syncRuns db)\<rparr>"

text \<open>\<^verbatim>\<open>error instanceof Error ? error.message : 'Unknown error'\<close>\<close>

fun error_message :: "error \<Rightarrow> string" where
  "error_message (ScryfallError m status) = m"
| "error_message (NetworkError m) = m"
| "error_message (Error m) = m"
| "error_message JsonError = ''Unexpected token in JSON''"
| "error_message StoreError = ''Invalid invocation''"

text \<open>
  The environment of \<^verbatim>\<open>processSyncRun\<close>. \<^verbatim>\<open>JSON.parse\<close> is a parameter, \<open>None\<close> when it
  throws. The code declares its value a \<^verbatim>\<open>ScryfallCard\<close>, and so does the model: a line
  that holds some other JSON value (\<^verbatim>\<open>null\<close>, a number) is not an input of the model.
  \<^verbatim>\<open>streamBulkData\<close> throws or yields a stream, the list of what the successive
  \<^verbatim>\<open>reader.read()\<close> calls return before the stream is done: a chunk of decoded text, or an
  exception. The clock is read once at the top of every turn of the loop:
  \<open>elapsed k\<close> is \<^verbatim>\<open>Date.now() - startTime\<close> at turn \<open>k\<close>.
\<close>

datatype read = Chunk jsstring | ReadError string

type_synonym json_parse = "jsstring \<Rightarrow> ScryfallCard option"

type_synonym bulk_data = "jsstring \<Rightarrow> error + read list"

text \<open>The local variables of \<^verbatim>\<open>processSyncRun\<close> and the store.\<close>

record loop_state =
  ls_processed :: int
  ls_failed :: int
  ls_lastOracleId :: "jsstring option"
  ls_shouldSkip :: bool
  ls_buffer :: jsstring
  ls_batch :: "ScryfallCard list"
  ls_db :: database

text \<open>
  \<^verbatim>\<open>const { success, failures } = await upsertCardBatch(batch); processed += success;
  failed += failures;\<close>
\<close>

definition upsert_batch :: "unicode \<Rightarrow> store_refuses \<Rightarrow> loop_state \<Rightarrow> loop_state" where
  "upsert_batch U refuses st =
     (case upsertCardBatch U refuses (ls_batch st) (ls_db st) of
        (success, failures, db') \<Rightarrow>
          st\<lparr>ls_processed := ls_processed st + success,
             ls_failed := ls_failed st + failures,
             ls_db := db'\<rparr>)"

text \<open>
  \<^verbatim>\<open>batch.push(card); lastOracleId = card.oracle_id;\<close> and, when the batch is full, the
  upsert of the batch followed by the update of the checkpoint.
\<close>

definition push_card ::
  "unicode \<Rightarrow> store_refuses \<Rightarrow> jsstring \<Rightarrow> ScryfallCard \<Rightarrow> loop_state \<Rightarrow> loop_state" where
  "push_card U refuses syncRunId card' st =
     (let st1 = st\<lparr>ls_batch := ls_batch st @ [card'],
                    ls_lastOracleId := Some (sc_oracle_id card')\<rparr>
      in if length (ls_batch st1) \<ge> BATCH_SIZE
         then
           (let st2 = (upsert_batch U refuses st1)\<lparr>ls_batch := []\<rparr>
            in st2\<lparr>ls_db :=
                     db_syncRun_update syncRunId
                       (\<lambda>r. r\<lparr>run_processed := ls_processed st2,
                               run_failed := ls_failed st2,
                               run_lastOracleId := ls_lastOracleId st2\<rparr>)
                       (ls_db st2)\<rparr>)
         else st1)"

text \<open>
  The body of \<^verbatim>\<open>for (const line of lines)\<close>. \<open>resumeFromOracleId\<close> is the cursor read from
  the row when the run started.
\<close>

definition process_line ::
  "unicode \<Rightarrow> json_parse \<Rightarrow> store_refuses \<Rightarrow> jsstring \<Rightarrow> jsstring option \<Rightarrow> jsstring \<Rightarrow>
     loop_state \<Rightarrow> loop_state" where
  "process_line U parse refuses syncRunId resumeFromOracleId line st =
     (if trim line = [] \<or> trim line = ascii ''['' \<or> trim line = ascii '']'' then st
      else
        (let cleanLine = trim line;
             cleanLine = (if endsWith cleanLine (ascii '','') then butlast cleanLine else cleanLine)
         in case parse cleanLine of
              None \<Rightarrow> st\<lparr>ls_failed := ls_failed st + 1\<rparr>
            | Some card' \<Rightarrow>
                if ls_shouldSkip st
                then (if Some (sc_oracle_id card') = resumeFromOracleId
                      then st\<lparr>ls_shouldSkip := False\<rparr>
                      else st)
                else push_card U refuses syncRunId card' st))"

definition process_lines ::
  "unicode \<Rightarrow> json_parse \<Rightarrow> store_refuses \<Rightarrow> jsstring \<Rightarrow> jsstring option \<Rightarrow> jsstring list \<Rightarrow>
     loop_state \<Rightarrow> loop_state" where
  "process_lines U parse refuses syncRunId resumeFromOracleId lines st =
     foldl (\<lambda>s line. process_line U parse refuses syncRunId resumeFromOracleId line s) st lines"

text \<open>
  One chunk: \<^verbatim>\<open>buffer += decoder.decode(value); const lines = buffer.split('\n');
  buffer = lines.pop() || '';\<close> and the loop over the lines.
\<close>

definition process_chunk ::
  "unicode \<Rightarrow> json_parse \<Rightarrow> store_refuses \<Rightarrow> jsstring \<Rightarrow> jsstring option \<Rightarrow> jsstring \<Rightarrow>
     loop_state \<Rightarrow> loop_state" where
  "process_chunk U parse refuses syncRunId resumeFromOracleId chunk st =
     (let lines = split_str (ls_buffer st @ chunk) [10]
      in process_lines U parse refuses syncRunId resumeFromOracleId (butlast lines)
           (st\<lparr>ls_buffer := last lines\<rparr>))"

text \<open>
  The loop \<^verbatim>\<open>while (true)\<close>, from turn \<open>k\<close> on, and how it is left: by the \<^verbatim>\<open>return\<close> of the
  pause, by \<^verbatim>\<open>break\<close> when the stream is done, or by an exception of \<^verbatim>\<open>reader.read()\<close>.
\<close>

datatype loop_exit = Paused | Done | Thrown error

fun sync_loop ::
  "unicode \<Rightarrow> json_parse \<Rightarrow> store_refuses \<Rightarrow> (nat \<Rightarrow> int) \<Rightarrow> jsstring \<Rightarrow> jsstring option \<Rightarrow>
     nat \<Rightarrow> read list \<Rightarrow> loop_state \<Rightarrow> loop_exit \<times> loop_state" where
  "sync_loop U parse refuses elapsed syncRunId resumeFromOracleId k reads st =
     (if elapsed k > MAX_RUNTIME_MS
      then (Paused,
            st\<lparr>ls_db :=
                 db_syncRun_update syncRunId
                   (\<lambda>r. r\<lparr>run_status := PAUSED,
                           run_processed := ls_processed st,
                           run_failed := ls_failed st,
                           run_lastOracleId := ls_lastOracleId st\<rparr>)
                   (ls_db st)\<rparr>)
      else
        (case reads of
           [] \<Rightarrow> (Done, if length (ls_batch st) > 0 then upsert_batch U refuses st else st)
         | ReadError m # rest \<Rightarrow> (Thrown (Error m), st)
         | Chunk value # rest \<Rightarrow>
             sync_loop U parse refuses elapsed syncRunId resumeFromOracleId (Suc k) rest
               (process_chunk U parse refuses syncRunId resumeFromOracleId value st)))"

text \<open>
  \<^verbatim>\<open>processSyncRun\<close>. \<open>today\<close> is the value of \<^verbatim>\<open>new Date()\<close> when the run completes. The
  result is the exception thrown or the progress returned, and the store.
\<close>

definition processSyncRun ::
  "unicode \<Rightarrow> json_parse \<Rightarrow> store_refuses \<Rightarrow> bulk_data \<Rightarrow> (nat \<Rightarrow> int) \<Rightarrow> int \<Rightarrow> jsstring \<Rightarrow>
     database \<Rightarrow> (error + SyncProgress) \<times> database" where
  "processSyncRun U parse refuses streamBulkData elapsed today syncRunId db =
     (case find (\<lambda>r. run_id r = syncRunId) (db_syncRuns db) of
        None \<Rightarrow> (Inl (Error ''Invalid sync run''), db)
      | Some syncRun \<Rightarrow>
          (case run_blobUrl syncRun of
             None \<Rightarrow> (Inl (Error ''Invalid sync run''), db)
           | Some blobUrl \<Rightarrow>
               if blobUrl = [] then (Inl (Error ''Invalid sync run''), db)
               else
                 (let db1 = db_syncRun_update syncRunId (\<lambda>r. r\<lparr>run_status := PROCESSING\<rparr>) db;
                      resumeFromOracleId = run_lastOracleId syncRun;
                      st0 = \<lparr>ls_processed = run_processed syncRun,
                             ls_failed = run_failed syncRun,
                             ls_lastOracleId = None,
                             ls_shouldSkip =
                               (case resumeFromOracleId of None \<Rightarrow> False | Some i \<Rightarrow> i \<noteq> []),
                             ls_buffer = [],
                             ls_batch = [],
                             ls_db = db1\<rparr>;
                      failed_run =
                        (\<lambda>e st. (Inl e,
                           db_syncRun_update syncRunId
                             (\<lambda>r. r\<lparr>run_status := FAILED,
                                     run_errorMessage := Some (error_message e),
                                     run_processed := ls_processed st,
                                     run_failed := ls_failed st,
                                     run_lastOracleId := ls_lastOracleId st\<rparr>)
                             (ls_db st)))
                  in case streamBulkData blobUrl of
                       Inl e \<Rightarrow> failed_run e st0
                     | Inr reads \<Rightarrow>
                         (case sync_loop U parse refuses elapsed syncRunId resumeFromOracleId
                                 0 reads st0 of
                            (Paused, st) \<Rightarrow>
                              (Inr \<lparr>sp_syncRunId = syncRunId, sp_status = PAUSED,
                                    sp_processed = ls_processed st,
                                    sp_totalRecords = run_totalRecords syncRun,
                                    sp_lastOracleId = ls_lastOracleId st\<rparr>,
                               ls_db st)
                          | (Done, st) \<Rightarrow>
                              (Inr \<lparr>sp_syncRunId = syncRunId, sp_status = COMPLETED,
                                    sp_processed = ls_processed st,
                                    sp_totalRecords = Some (ls_processed st + ls_failed st),
                                    sp_lastOracleId = None\<rparr>,
                               db_syncRun_update syncRunId
                                 (\<lambda>r. r\<lparr>run_status := COMPLETED,
                                         run_processed := ls_processed st,
                                         run_failed := ls_failed st,
                                         run_completedAt := Some today\<rparr>)
                                 (ls_db st))
                          | (Thrown e, st) \<Rightarrow> failed_run e st))))"

text \<open>
  \<^verbatim>\<open>startSync(type, { resumeId })\<close> with a \<^verbatim>\<open>resumeId\<close>: the branch that resumes a paused
  run. The messages of its two exceptions also name the run (and its status); the model
  keeps their fixed part.
\<close>

definition startSync_resume ::
  "unicode \<Rightarrow> json_parse \<Rightarrow> store_refuses \<Rightarrow> bulk_data \<Rightarrow> (nat \<Rightarrow> int) \<Rightarrow> int \<Rightarrow> jsstring \<Rightarrow>
     database \<Rightarrow> (error + SyncProgress) \<times> database" where
  "startSync_resume U parse refuses streamBulkData elapsed today resumeId db =
     (case find (\<lambda>r. run_id r = resumeId) (db_syncRuns db) of
        None \<Rightarrow> (Inl (Error ''Sync run not found''), db)
      | Some existingRun \<Rightarrow>
          if run_status existingRun \<noteq> PAUSED then (Inl (Error ''Sync run is not paused''), db)
          else processSyncRun U parse refuses streamBulkData elapsed today (run_id existingRun) db)"

section \<open>Notions of the specification and example data\<close>

text \<open>
  ``Duplicates removed while preserving first-seen order'', in the words of the
  specification: the head is kept and removed from what follows.
\<close>

fun first_seen :: "'a list \<Rightarrow> 'a list" where
  "first_seen [] = []"
| "first_seen (x # xs) = x # filter (\<lambda>y. y \<noteq> x) (first_seen xs)"

text \<open>
  Example tables for \<open>unicode\<close>: lower-casing and canonical decomposition of the Latin-1
  block (U+0000 to U+00FF), code unit by code unit; other code units are left as they are.
\<close>

definition latin1_toLower :: "nat \<Rightarrow> nat" where
  "latin1_toLower c =
     (if isAsciiUpper c \<or> (192 \<le> c \<and> c \<le> 222 \<and> c \<noteq> 215) then c + 32 else c)"

definition latin1_accents :: "(nat \<times> nat \<times> nat) list" where
  "latin1_accents =
     [(224, 97, 768), (225, 97, 769), (226, 97, 770), (227, 97, 771), (228, 97, 776),
      (229, 97, 778), (231, 99, 807), (232, 101, 768), (233, 101, 769), (234, 101, 770),
      (235, 101, 776), (236, 105, 768), (237, 105, 769), (238, 105, 770), (239, 105, 776),
      (241, 110, 771), (242, 111, 768), (243, 111, 769), (244, 111, 770), (245, 111, 771),
      (246, 111, 776), (249, 117, 768), (250, 117, 769), (251, 117, 770), (252, 117, 776),
      (253, 121, 769), (255, 121, 776)]"

definition latin1_decompose :: "nat \<Rightarrow> jsstring" where
  "latin1_decompose c =
     (case map_of latin1_accents c of
        Some (b, m) \<Rightarrow> [b, m]
      | None \<Rightarrow>
          (if 192 \<le> c \<and> c \<le> 221
           then (case map_of latin1_accents (c + 32) of
                   Some (b, m) \<Rightarrow> [b - 32, m]
                 | None \<Rightarrow> [c])
           else [c]))"

definition latin1 :: unicode where
  "latin1 = \<lparr>ucd_toLowerCase = map latin1_toLower,
             ucd_normalizeNFD = (\<lambda>s. concat (map latin1_decompose s))\<rparr>"

text \<open>The string \<^verbatim>\<open>"  Jace's  S\u00C9ANCE!  "\<close>.\<close>

definition seance_input :: jsstring where
  "seance_input = ascii ''  Jace's  '' @ [83, 201, 65, 78, 67, 69] @ ascii ''!  ''"

text \<open>Example records, a store that refuses nothing, and the empty store.\<close>

definition example_face :: "jsstring \<Rightarrow> jsstring \<Rightarrow> ScryfallCardFace" where
  "example_face name type_line =
     \<lparr>face_name = name, face_mana_cost = None, face_type_line = type_line,
      face_oracle_text = None, face_power = None, face_toughness = None,
      face_loyalty = None, face_defense = None\<rparr>"

definition example_card ::
  "jsstring \<Rightarrow> jsstring \<Rightarrow> jsstring \<Rightarrow> ScryfallCardFace list option \<Rightarrow> ScryfallCard" where
  "example_card oracle_id name type_line faces =
     \<lparr>sc_id = ascii ''print-'' @ oracle_id, sc_oracle_id = oracle_id, sc_name = name,
      sc_layout = ascii ''normal'', sc_mana_cost = None, sc_cmc = 1, sc_type_line = type_line,
      sc_oracle_text = None, sc_colors = None, sc_color_identity = [], sc_keywords = [],
      sc_released_at = None, sc_rulings_uri = [], sc_card_faces = faces\<rparr>"

definition accepts_all :: store_refuses where
  "accepts_all cards faces sc = False"

definition empty_db :: database where
  "empty_db = \<lparr>db_cards = [], db_cardFaces = [], db_rulings = [], db_syncRuns = [], db_nextId = 0\<rparr>"

text \<open>
  The face rows of a card in the store, and the rows that the faces of an incoming record
  become: in order, with the indices 0, 1, 2, ...
\<close>

definition faces_of :: "database \<Rightarrow> nat \<Rightarrow> CardFace list" where
  "faces_of db cid = filter (\<lambda>f. cf_cardId f = cid) (db_cardFaces db)"

definition face_rows :: "unicode \<Rightarrow> nat \<Rightarrow> nat \<Rightarrow> ScryfallCardFace list \<Rightarrow> CardFace list" where
  "face_rows U cid i faces = map (\<lambda>(j, face). face_data U cid j face) (enumerate i faces)"

text \<open>
  Fire // Ice as Scryfall sends it, with its two faces, and the same card sent again with
  an empty list of faces and with no list of faces.
\<close>

definition fire_ice_two_faces :: ScryfallCard where
  "fire_ice_two_faces =
     example_card (ascii ''o-1'') (ascii ''Fire // Ice'') (ascii ''Instant // Instant'')
       (Some [example_face (ascii ''Fire'') (ascii ''Instant''),
              example_face (ascii ''Ice'') (ascii ''Instant'')])"

definition fire_ice_empty_faces :: ScryfallCard where
  "fire_ice_empty_faces =
     example_card (ascii ''o-1'') (ascii ''Fire // Ice'') (ascii ''Instant'') (Some [])"

definition fire_ice_no_faces :: ScryfallCard where
  "fire_ice_no_faces =
     example_card (ascii ''o-1'') (ascii ''Fire // Ice'') (ascii ''Instant'') None"

text \<open>The store after a sync of the two-faced record alone, and the names on the face rows of a card.\<close>

definition db_fire_ice :: database where
  "db_fire_ice = snd (snd (upsertCardBatch latin1 accepts_all [fire_ice_two_faces] empty_db))"

definition stored_face_names :: "nat \<Rightarrow> database \<Rightarrow> jsstring list" where
  "stored_face_names cid db = map cf_name (faces_of db cid)"

text \<open>
  Brainstorm and Brainstone, the store that holds just the two, Lightning Bolt and the
  store that holds it alone. The stores are built by the sync's own upsert.
\<close>

definition brainstorm :: ScryfallCard where
  "brainstorm = example_card (ascii ''o-brainstorm'') (ascii ''Brainstorm'') (ascii ''Instant'') None"

definition brainstone :: ScryfallCard where
  "brainstone = example_card (ascii ''o-brainstone'') (ascii ''Brainstone'') (ascii ''Artifact'') None"

definition db_brain :: "unicode \<Rightarrow> database" where
  "db_brain U = snd (snd (upsertCardBatch U accepts_all [brainstorm, brainstone] empty_db))"

definition lightning_bolt :: ScryfallCard where
  "lightning_bolt =
     example_card (ascii ''o-bolt'') (ascii ''Lightning Bolt'') (ascii ''Instant'') None"

definition db_bolt :: database where
  "db_bolt = snd (snd (upsertCardBatch latin1 accepts_all [lightning_bolt] empty_db))"

text \<open>
  Two remote sources: one answers every request with 404; the other knows Lightning Bolt
  under the fuzzy name \<^verbatim>\<open>Lightning Blot\<close>, has no rulings for it, and answers 404 otherwise.
\<close>

definition remote_404 :: remote where
  "remote_404 req = Inr \<lparr>resp_status = 404, resp_retryAfter = None, resp_body = NotJson\<rparr>"

definition remote_bolt :: remote where
  "remote_bolt req =
     (if req = CardsNamed True (ascii ''Lightning Blot'')
      then Inr \<lparr>resp_status = 200, resp_retryAfter = None, resp_body = CardJson lightning_bolt\<rparr>
      else Inr \<lparr>resp_status = 404, resp_retryAfter = None, resp_body = NotJson\<rparr>)"

text \<open>
  The instants at which requests depart, read off a trace, and what it means for them to
  keep an interval \<open>gap\<close>: each departs at least \<open>gap\<close> after the one before.
\<close>

fun departures :: "event list \<Rightarrow> int list" where
  "departures [] = []"
| "departures (Request t # es) = t # departures es"
| "departures (Settled t # es) = departures es"

fun spaced :: "int \<Rightarrow> int list \<Rightarrow> bool" where
  "spaced gap (t # u # ts) = (t + gap \<le> u \<and> spaced gap (u # ts))"
| "spaced gap ts = True"

text \<open>
  The invariant of the rate limiter: the departures so far keep the interval \<open>gap\<close>, none
  is later than \<open>lastRequest\<close> by more than \<open>late\<close>, and \<open>lastRequest\<close> is not ahead of the
  clock.
\<close>

definition throttled :: "int \<Rightarrow> int \<Rightarrow> client_state \<Rightarrow> bool" where
  "throttled gap late st \<longleftrightarrow>
     spaced gap (departures (trace st)) \<and>
     list_all (\<lambda>t. t \<le> lastRequest st + late) (departures (trace st)) \<and>
     lastRequest st \<le> now st"

text \<open>
  The clock does not run backwards: no timer, no step of the engine, no reply, no
  time-out of a call and no pause of a caller takes a negative time.
\<close>

fun duration :: "action \<Rightarrow> int" where
  "duration (Fetch retries timeout) = timeout"
| "duration (Idle d) = d"

definition forward :: "engine \<Rightarrow> network \<Rightarrow> action list \<Rightarrow> bool" where
  "forward E net actions \<longleftrightarrow>
     (\<forall>k ms. 0 \<le> eng_timer E k ms) \<and> (\<forall>k. 0 \<le> eng_lag E k) \<and>
     (\<forall>k. 0 \<le> reply_latency (net k)) \<and> list_all (\<lambda>a. 0 \<le> duration a) actions"

text \<open>
  What bounds the engine's timing: a timer set for a delay within the interval fires at
  most \<open>early\<close> milliseconds before the delay is over, and the engine takes at most \<open>late\<close>
  milliseconds from the return of \<^verbatim>\<open>throttle()\<close> to the call of \<^verbatim>\<open>fetch\<close>.
\<close>

definition tolerance :: "engine \<Rightarrow> int \<Rightarrow> int \<Rightarrow> bool" where
  "tolerance E early late \<longleftrightarrow>
     0 \<le> early \<and> (\<forall>k d. 0 < d \<and> d \<le> minDelay \<longrightarrow> d - early \<le> eng_timer E k (Some d)) \<and>
     (\<forall>k. eng_lag E k \<le> late)"

text \<open>The reply to request \<open>k\<close> arrives before the timeout and carries status 429.\<close>

definition replies_429 :: "network \<Rightarrow> int \<Rightarrow> nat \<Rightarrow> bool" where
  "replies_429 net timeout k \<longleftrightarrow>
     reply_latency (net k) < timeout \<and>
     (case reply_result (net k) of Responds r \<Rightarrow> resp_status r = 429 | Rejects m \<Rightarrow> False)"

text \<open>
  Two engines. Node reads a delay that is below 1, above \<^verbatim>\<open>2^31 - 1\<close> or \<^verbatim>\<open>NaN\<close> as 1.
  In \<open>punctual\<close> every timer fires exactly on time by the clock and the engine takes no
  time of its own. In \<open>uneven\<close> every timer fires one millisecond before its time, as a
  timer does when the clock ticks over just after it was set, and the clock also ticks
  over between the return of \<^verbatim>\<open>throttle()\<close> and the first call of \<^verbatim>\<open>fetch\<close>.
\<close>

definition node_delay :: "int option \<Rightarrow> int" where
  "node_delay ms =
     (case ms of None \<Rightarrow> 1 | Some d \<Rightarrow> if 1 \<le> d \<and> d \<le> 2147483647 then d else 1)"

definition punctual :: engine where
  "punctual = \<lparr>eng_timer = (\<lambda>k ms. node_delay ms), eng_lag = (\<lambda>k. 0)\<rparr>"

definition uneven :: engine where
  "uneven = \<lparr>eng_timer = (\<lambda>k ms. node_delay ms - 1), eng_lag = (\<lambda>k. if k = 0 then 1 else 0)\<rparr>"

text \<open>
  The client when the module has just been loaded, two responses, a network that answers
  the first three requests with 429 and the fourth with 200, a network whose first
  reply takes 150 ms and every later one 10 ms, and one whose every reply takes 10 ms.
\<close>

definition initial_client :: client_state where
  "initial_client =
     \<lparr>now = 1700000000000, lastRequest = 0, requests = 0, timers = 0, trace = []\<rparr>"

definition too_many_requests :: response where
  "too_many_requests = \<lparr>resp_status = 429, resp_retryAfter = None, resp_body = NotJson\<rparr>"

definition ok_response :: response where
  "ok_response = \<lparr>resp_status = 200, resp_retryAfter = None, resp_body = NotJson\<rparr>"

definition net_429_thrice :: network where
  "net_429_thrice k =
     \<lparr>reply_latency = 20,
      reply_result = Responds (if k < 3 then too_many_requests else ok_response)\<rparr>"

definition net_slow_then_fast :: network where
  "net_slow_then_fast k =
     \<lparr>reply_latency = (if k = 0 then 150 else 10), reply_result = Responds ok_response\<rparr>"

definition net_fast :: network where
  "net_fast k = \<lparr>reply_latency = 10, reply_result = Responds ok_response\<rparr>"

text \<open>
  Two calls of \<^verbatim>\<open>throttle()\<close> started in the same turn of the event loop, neither awaited
  before the other starts. When the first call need not wait it runs to its end at once,
  and the second call runs after it. When the first call must wait it is suspended at its
  \<^verbatim>\<open>await\<close> having written nothing: the second call reads the same \<open>lastRequest\<close> and sets
  a timer for the same delay, and the two timers then fire one after the other, in the
  same turn when the timer is exact. The result is the pair of instants at which the two
  calls return, and the state after both.
\<close>

definition throttle_two_at_once :: "client_state \<Rightarrow> (int \<times> int) \<times> client_state" where
  "throttle_two_at_once st =
     (case throttle_wait st of
        None \<Rightarrow>
          (let st1 = throttle_finish st; st2 = throttle punctual st1 in ((now st1, now st2), st2))
      | Some d \<Rightarrow>
          (let st1 = throttle_finish (sleep punctual (Some d) st);
               st2 = throttle_finish (st1\<lparr>timers := Suc (timers st1)\<rparr>)
           in ((now st1, now st2), st2)))"

text \<open>
  Three cards, the line of the bulk file that carries each (the JSON text of the record,
  with the fields the client's type requires), and a \<^verbatim>\<open>JSON.parse\<close> that reads the lines
  of the given cards and throws on every other text.
\<close>

definition card_a :: ScryfallCard where
  "card_a = example_card (ascii ''o-a'') (ascii ''Opt'') (ascii ''Instant'') None"

definition card_b :: ScryfallCard where
  "card_b = example_card (ascii ''o-b'') (ascii ''Shock'') (ascii ''Instant'') None"

definition card_c :: ScryfallCard where
  "card_c = example_card (ascii ''o-c'') (ascii ''Duress'') (ascii ''Sorcery'') None"

definition example_json :: "ScryfallCard \<Rightarrow> jsstring" where
  \<open>example_json c =
     ascii ''{"id":"'' @ sc_id c @ ascii ''","oracle_id":"'' @ sc_oracle_id c @
     ascii ''","name":"'' @ sc_name c @ ascii ''","layout":"normal","cmc":1,"type_line":"'' @
     sc_type_line c @ ascii ''","color_identity":[],"keywords":[],"rulings_uri":""}''\<close>

definition parse_known :: "ScryfallCard list \<Rightarrow> json_parse" where
  "parse_known cards text = find (\<lambda>c. example_json c = text) cards"

text \<open>
  The bulk file of the three cards, one array element per line, as it arrives in two
  chunks: the opening bracket and the first two cards, then the third card and the
  closing bracket.
\<close>

definition chunk_ab :: jsstring where
  "chunk_ab = ascii ''['' @ [10] @ example_json card_a @ ascii '','' @ [10] @
              example_json card_b @ ascii '','' @ [10]"

definition chunk_c :: jsstring where
  "chunk_c = example_json card_c @ [10] @ ascii '']'' @ [10]"

definition bulk_file :: bulk_data where
  "bulk_file url = Inr [Chunk chunk_ab, Chunk chunk_c]"

text \<open>A sync run as \<^verbatim>\<open>startSync\<close> leaves it before processing, in a store with no cards.\<close>

definition new_run :: SyncRun where
  "new_run =
     \<lparr>run_id = ascii ''run-1'', run_type = ascii ''oracle_cards'', run_status = DOWNLOADING,
      run_processed = 0, run_failed = 0, run_totalRecords = None, run_lastOracleId = None,
      run_blobUrl = Some (ascii ''https://data.scryfall.io/oracle-cards.json''),
      run_blobSize = Some 1000, run_errorMessage = None, run_completedAt = None\<rparr>"

definition db_new_run :: database where
  "db_new_run = empty_db\<lparr>db_syncRuns := [new_run]\<rparr>"

text \<open>
  Two clocks: one that never reaches the time box, and one that is past it from the
  second turn of the loop on.
\<close>

definition in_time :: "nat \<Rightarrow> int" where
  "in_time k = 1000 * int k"

definition late_after_first_chunk :: "nat \<Rightarrow> int" where
  "late_after_first_chunk k = (if k = 0 then 0 else 56000)"

text \<open>
  What a line of the stream is to the loop: ignored (blank or a bracket), malformed
  (\<^verbatim>\<open>JSON.parse\<close> throws) or a record; the records of a list of lines, in order; and the
  number of malformed lines.
\<close>

datatype line_item = Ignored | Malformed | Record ScryfallCard

definition read_line :: "json_parse \<Rightarrow> jsstring \<Rightarrow> line_item" where
  "read_line parse line =
     (if trim line = [] \<or> trim line = ascii ''['' \<or> trim line = ascii '']'' then Ignored
      else
        (case parse (if endsWith (trim line) (ascii '','') then butlast (trim line) else trim line) of
           None \<Rightarrow> Malformed
         | Some c \<Rightarrow> Record c))"

fun records :: "line_item list \<Rightarrow> ScryfallCard list" where
  "records [] = []"
| "records (Record c # items) = c # records items"
| "records (item # items) = records items"

definition malformed :: "line_item list \<Rightarrow> int" where
  "malformed items = int (length (filter (\<lambda>i. i = Malformed) items))"

text \<open>
  The lines that the loop sees in a stream of chunks, the carry-over buffer being
  \<open>buffer\<close>: the text after the last line feed is never seen as a line.
\<close>

fun stream_lines_from :: "jsstring \<Rightarrow> jsstring list \<Rightarrow> jsstring list" where
  "stream_lines_from buffer [] = []"
| "stream_lines_from buffer (chunk # chunks) =
     butlast (split_str (buffer @ chunk) [10]) @
     stream_lines_from (last (split_str (buffer @ chunk) [10])) chunks"

definition stream_lines :: "jsstring list \<Rightarrow> jsstring list" where
  "stream_lines chunks = stream_lines_from [] chunks"

text \<open>
  The counters and the store as they would be were the pending batch upserted now; a
  store without its table of sync runs; and a result with \<open>n\<close> more failures.
\<close>

definition pending :: "unicode \<Rightarrow> store_refuses \<Rightarrow> loop_state \<Rightarrow> int \<times> int \<times> database" where
  "pending U refuses st =
     upsertCardBatch_loop U refuses (ls_batch st) (ls_processed st, ls_failed st, ls_db st)"

definition without_runs :: "database \<Rightarrow> database" where
  "without_runs db = db\<lparr>db_syncRuns := []\<rparr>"

fun result_without_runs :: "int \<times> int \<times> database \<Rightarrow> int \<times> int \<times> database" where
  "result_without_runs (p, f, db) = (p, f, without_runs db)"

fun add_failed :: "int \<Rightarrow> int \<times> int \<times> database \<Rightarrow> int \<times> int \<times> database" where
  "add_failed n (p, f, db) = (p, f + n, db)"

text \<open>
  A store in which run-1 is paused after \<open>card_a\<close> was committed, with the cursor on it.
\<close>

definition db_paused_after_a :: database where
  "db_paused_after_a =
     (snd (snd (upsertCardBatch latin1 accepts_all [card_a] empty_db)))
       \<lparr>db_syncRuns := [new_run\<lparr>run_status := PAUSED, run_processed := 1,
                                run_lastOracleId := Some (ascii ''o-a'')\<rparr>]\<rparr>"

text \<open>The store after run-1 was paused with the cursor on \<open>card_b\<close> and no card stored.\<close>

definition db_paused_at_b :: database where
  "db_paused_at_b =
     db_new_run\<lparr>db_syncRuns := [new_run\<lparr>run_status := PAUSED,
                                            run_lastOracleId := Some (ascii ''o-b'')\<rparr>]\<rparr>"

text \<open>
  A store in which run-1 is paused after \<open>card_a\<close> and \<open>card_b\<close> were committed, with the
  cursor on \<open>card_b\<close>; and the same store with the row of run-1 as a pause leaves it when
  \<open>lastOracleId\<close> is \<^verbatim>\<open>null\<close>.
\<close>

definition db_paused_after_b :: database where
  "db_paused_after_b =
     (snd (snd (upsertCardBatch latin1 accepts_all [card_a, card_b] empty_db)))
       \<lparr>db_syncRuns := [new_run\<lparr>run_status := PAUSED, run_processed := 2,
                                run_lastOracleId := Some (ascii ''o-b'')\<rparr>]\<rparr>"

definition db_paused_again :: database where
  "db_paused_again =
     db_paused_after_b\<lparr>db_syncRuns := [new_run\<lparr>run_status := PAUSED, run_processed := 2,
                                                 run_lastOracleId := None\<rparr>]\<rparr>"

text \<open>The local variables of \<^verbatim>\<open>processSyncRun\<close> when it resumes in \<open>db_paused_after_a\<close>.\<close>

definition resuming_after_a :: loop_state where
  "resuming_after_a =
     \<lparr>ls_processed = 1, ls_failed = 0, ls_lastOracleId = None, ls_shouldSkip = True,
      ls_buffer = [], ls_batch = [],
      ls_db = db_syncRun_update (ascii ''run-1'') (\<lambda>r. r\<lparr>run_status := PROCESSING\<rparr>)
                db_paused_after_a\<rparr>"

text \<open>
  The shape of a string after \<open>collapseWhitespace\<close>: every white-space code unit is a
  space and is not followed by white space. \<open>cleanChar\<close> holds of the code units that
  \<open>normalizeName\<close> can return.
\<close>

fun collapsed :: "jsstring \<Rightarrow> bool" where
  "collapsed [] = True"
| "collapsed [c] = (isWhiteSpace c \<longrightarrow> c = 32)"
| "collapsed (c # d # cs) = ((isWhiteSpace c \<longrightarrow> c = 32 \<and> \<not> isWhiteSpace d) \<and> collapsed (d # cs))"

definition cleanChar :: "nat \<Rightarrow> bool" where
  "cleanChar c \<longleftrightarrow> \<not> isAsciiUpper c \<and>
     (isWordChar c \<or> c = 32 \<or> c = 39 \<or> c = 47 \<or> c = 45)"

chapter \<open>Properties\<close>

section \<open>The name normalizer\<close>

lemma cleanChar_facts:
  assumes "cleanChar c"
  shows "isAscii c" "asciiLower c = c" "\<not> (768 \<le> c \<and> c \<le> 879)"
    "isWordChar c \<or> isWhiteSpace c \<or> c = 39 \<or> c = 47 \<or> c = 45"
  using assms
  by (auto simp: cleanChar_def isAscii_def asciiLower_def isWordChar_def isWhiteSpace_def)

lemma clean_fixed_prefix:
  assumes "list_all cleanChar s"
  shows "removeSpecialChars (normalizeApostrophes (removeCombiningMarks
           (normalizeNFD U (toLowerCase U s)))) = s"
proof -
  have a: "list_all isAscii s"
    using assms by (induction s) (auto simp: cleanChar_facts)
  have l: "map asciiLower s = s"
    using assms by (induction s) (auto simp: cleanChar_facts)
  have m: "removeCombiningMarks s = s"
    using assms unfolding removeCombiningMarks_def
    by (induction s) (auto dest: cleanChar_facts(3))
  have p: "normalizeApostrophes s = s"
    unfolding normalizeApostrophes_def by (induction s) auto
  have k: "removeSpecialChars s = s"
    using assms unfolding removeSpecialChars_def
    by (induction s) (auto dest: cleanChar_facts(4))
  show ?thesis
    by (simp add: toLowerCase_def normalizeNFD_def a l m p k)
qed

lemma dropWhile_head: "dropWhile P xs = y # ys \<Longrightarrow> \<not> P y"
  by (metis hd_dropWhile list.distinct(1) list.sel(1))

lemma dropWhile_self: "xs = [] \<or> \<not> P (hd xs) \<Longrightarrow> dropWhile P xs = xs"
  by (cases xs) auto

lemma collapsed_collapseWhitespace: "collapsed (collapseWhitespace s)"
proof (induction s rule: collapseWhitespace.induct)
  case 1
  show ?case by simp
next
  case (2 c cs)
  show ?case
  proof (cases "isWhiteSpace c")
    case True
    define r where "r = dropWhile isWhiteSpace cs"
    have ih: "collapsed (collapseWhitespace r)" using 2(1) True by (simp add: r_def)
    have step: "collapseWhitespace (c # cs) = 32 # collapseWhitespace r"
      using True by (simp add: r_def)
    show ?thesis
    proof (cases r)
      case Nil
      then have "collapsed (32 # collapseWhitespace r)" by simp
      then show ?thesis by (simp only: step)
    next
      case (Cons d ds)
      then have nd: "\<not> isWhiteSpace d" using dropWhile_head [of isWhiteSpace cs d ds]
        by (simp add: r_def)
      have "collapsed (32 # collapseWhitespace r)" using ih nd by (simp add: Cons)
      then show ?thesis by (simp only: step)
    qed
  next
    case False
    then have ih: "collapsed (collapseWhitespace cs)" using 2(2) by simp
    show ?thesis using False ih by (cases "collapseWhitespace cs") auto
  qed
qed

lemma collapsed_fixed: "collapsed s \<Longrightarrow> collapseWhitespace s = s"
proof (induction s rule: collapsed.induct)
  case 1
  show ?case by simp
next
  case (2 c)
  then show ?case by simp
next
  case (3 c d cs)
  then show ?case by (cases "isWhiteSpace c") auto
qed

lemma collapsed_append: "collapsed (xs @ ys) \<Longrightarrow> collapsed xs \<and> collapsed ys"
proof (induction xs rule: collapsed.induct)
  case 1
  then show ?case by simp
next
  case (2 c)
  then show ?case by (cases ys) auto
next
  case (3 c d cs)
  then show ?case by auto
qed

lemma trim_decomp: "\<exists>pre post. s = pre @ trim s @ post"
proof -
  let ?t = "dropWhile isWhiteSpace s"
  have 1: "s = takeWhile isWhiteSpace s @ ?t" by simp
  have "rev ?t = takeWhile isWhiteSpace (rev ?t) @ dropWhile isWhiteSpace (rev ?t)" by simp
  then have "?t = trim s @ rev (takeWhile isWhiteSpace (rev ?t))"
    unfolding trim_def by (metis rev_append rev_rev_ident)
  with 1 show ?thesis by metis
qed

lemma collapsed_trim: "collapsed s \<Longrightarrow> collapsed (trim s)"
  using trim_decomp [of s] collapsed_append by metis

lemma set_trim: "set (trim s) \<subseteq> set s"
  using trim_decomp [of s] by (metis Un_iff set_append subsetI)

lemma trim_ends:
  "trim s = [] \<or> (\<not> isWhiteSpace (hd (trim s)) \<and> \<not> isWhiteSpace (last (trim s)))"
proof (cases "trim s = []")
  case True
  then show ?thesis by simp
next
  case False
  let ?t = "dropWhile isWhiteSpace s"
  let ?u = "dropWhile isWhiteSpace (rev ?t)"
  have u: "?u \<noteq> []" using False by (simp add: trim_def)
  then have hu: "\<not> isWhiteSpace (hd ?u)" by (rule hd_dropWhile)
  have l: "last (trim s) = hd ?u" using u by (simp add: trim_def last_rev)
  have "?t \<noteq> []"
  proof
    assume e: "?t = []"
    have "?u = []" unfolding e by simp
    with u show False by contradiction
  qed
  then have ht: "\<not> isWhiteSpace (hd ?t)" by (rule hd_dropWhile)
  obtain ws where "rev ?t = ws @ ?u" by (metis takeWhile_dropWhile_id)
  then have "?t = trim s @ rev ws" by (metis rev_append rev_rev_ident trim_def)
  then have "hd ?t = hd (trim s)" using False by (metis hd_append2)
  with ht hu l show ?thesis by simp
qed

lemma trim_fixed:
  assumes "s = [] \<or> (\<not> isWhiteSpace (hd s) \<and> \<not> isWhiteSpace (last s))"
  shows "trim s = s"
proof (cases "s = []")
  case True
  then show ?thesis by (simp add: trim_def)
next
  case False
  with assms have h: "\<not> isWhiteSpace (hd s)" and l: "\<not> isWhiteSpace (last s)" by auto
  have 1: "dropWhile isWhiteSpace s = s" using False h by (cases s) auto
  have "hd (rev s) = last s" using False by (simp add: hd_rev)
  then have 2: "dropWhile isWhiteSpace (rev s) = rev s"
    using l by (intro dropWhile_self) simp
  show ?thesis by (simp add: trim_def 1 2)
qed

lemma trim_idem: "trim (trim s) = trim s"
  by (rule trim_fixed) (rule trim_ends)

lemma set_collapseWhitespace:
  "c \<in> set (collapseWhitespace s) \<Longrightarrow> c = 32 \<or> (c \<in> set s \<and> \<not> isWhiteSpace c)"
proof (induction s rule: collapseWhitespace.induct)
  case 1
  then show ?case by simp
next
  case (2 d cs)
  show ?case
  proof (cases "isWhiteSpace d")
    case True
    with 2(3) have "c = 32 \<or> c \<in> set (collapseWhitespace (dropWhile isWhiteSpace cs))"
      by simp
    with 2(1) [OF True] have "c = 32 \<or> (c \<in> set (dropWhile isWhiteSpace cs) \<and> \<not> isWhiteSpace c)"
      by blast
    then show ?thesis using set_dropWhileD [of c isWhiteSpace cs] by auto
  next
    case False
    with 2(3) have "c = d \<or> c \<in> set (collapseWhitespace cs)" by simp
    with 2(2) [OF False] False show ?thesis by auto
  qed
qed

lemma normalizeName_clean:
  assumes "list_all (\<lambda>c. \<not> isAsciiUpper c) (normalizeNFD U (toLowerCase U x))"
  shows "list_all cleanChar (normalizeName U x)"
proof -
  let ?z = "normalizeNFD U (toLowerCase U x)"
  let ?w = "removeSpecialChars (normalizeApostrophes (removeCombiningMarks ?z))"
  have w: "\<forall>c \<in> set ?w. \<not> isAsciiUpper c \<and>
             (isWordChar c \<or> isWhiteSpace c \<or> c = 39 \<or> c = 47 \<or> c = 45)"
    using assms
    by (auto simp: removeSpecialChars_def normalizeApostrophes_def removeCombiningMarks_def
        list_all_iff isAsciiUpper_def)
  have "cleanChar c" if "c \<in> set (normalizeName U x)" for c
  proof -
    from that have "c \<in> set (collapseWhitespace ?w)"
      unfolding normalizeName_def using set_trim by blast
    then have "c = 32 \<or> (c \<in> set ?w \<and> \<not> isWhiteSpace c)"
      by (rule set_collapseWhitespace)
    then show ?thesis
      using w by (auto simp: cleanChar_def isAsciiUpper_def)
  qed
  then show ?thesis by (simp add: list_all_iff)
qed

text \<open>
  Claim C7. The name normalizer is idempotent: \<open>normalizeName (normalizeName x)\<close> equals
  \<open>normalizeName x\<close>, for every string \<open>x\<close> whose lower-cased, decomposed form holds no
  ASCII capital letter. The Unicode character database gives every character whose
  canonical decomposition holds an ASCII capital a lower-case mapping, so the engine's
  tables meet the hypothesis at every string; on an ASCII string the model computes it.
\<close>

theorem normalizeName_idempotent:
  assumes "list_all (\<lambda>c. \<not> isAsciiUpper c) (normalizeNFD U (toLowerCase U x))"
  shows "normalizeName U (normalizeName U x) = normalizeName U x"
proof -
  let ?y = "normalizeName U x"
  have clean: "list_all cleanChar ?y" using assms by (rule normalizeName_clean)
  have col: "collapsed ?y"
    unfolding normalizeName_def by (rule collapsed_trim) (rule collapsed_collapseWhitespace)
  have "normalizeName U ?y = trim (collapseWhitespace ?y)"
    unfolding normalizeName_def [of U ?y] by (simp only: clean_fixed_prefix [OF clean])
  also have "\<dots> = trim ?y" by (simp only: collapsed_fixed [OF col])
  also have "\<dots> = ?y" unfolding normalizeName_def [of U x] by (rule trim_idem)
  finally show ?thesis .
qed

lemmas string_eval =
  ascii_def isWhiteSpace_def isWordChar_def isAscii_def isAsciiUpper_def asciiLower_def
  toLowerCase_def normalizeNFD_def trim_def startsWith_def endsWith_def split_str_def
  removeCombiningMarks_def normalizeApostrophes_def removeSpecialChars_def normalizeName_def

lemmas latin1_eval =
  latin1_def latin1_toLower_def latin1_decompose_def latin1_accents_def

theorem normalizeName_idempotent_witness:
  "list_all (\<lambda>c. \<not> isAsciiUpper c) (normalizeNFD latin1 (toLowerCase latin1 seance_input)) \<and>
   normalizeName latin1 seance_input = ascii ''jace's seance'' \<and>
   normalizeName latin1 (normalizeName latin1 seance_input) = normalizeName latin1 seance_input"
proof -
  have h: "list_all (\<lambda>c. \<not> isAsciiUpper c)
             (normalizeNFD latin1 (toLowerCase latin1 seance_input))"
    by (simp add: seance_input_def string_eval latin1_eval)
  have v: "normalizeName latin1 seance_input = ascii ''jace's seance''"
    by (simp add: seance_input_def string_eval latin1_eval)
  from h v normalizeName_idempotent [OF h] show ?thesis by simp
qed

lemma array_from_Set_fold:
  "foldl (\<lambda>seen x. if x \<in> set seen then seen else seen @ [x]) seen xs =
     seen @ filter (\<lambda>y. y \<notin> set seen) (first_seen xs)"
proof (induction xs arbitrary: seen)
  case Nil
  show ?case by simp
next
  case (Cons x xs)
  show ?case
  proof (cases "x \<in> set seen")
    case True
    then have "filter (\<lambda>y. y \<notin> set seen) (filter (\<lambda>y. y \<noteq> x) (first_seen xs)) =
               filter (\<lambda>y. y \<notin> set seen) (first_seen xs)"
      by (auto intro: filter_cong)
    with True Cons [of seen] show ?thesis by simp
  next
    case False
    have "filter (\<lambda>y. y \<notin> set (seen @ [x])) (first_seen xs) =
          filter (\<lambda>y. y \<notin> set seen) (filter (\<lambda>y. y \<noteq> x) (first_seen xs))"
      by (auto intro: filter_cong)
    with False Cons [of "seen @ [x]"] show ?thesis by simp
  qed
qed

lemma array_from_Set_first_seen: "array_from_Set xs = first_seen xs"
  by (simp add: array_from_Set_def array_from_Set_fold)

lemma set_first_seen: "set (first_seen xs) = set xs"
  by (induction xs) auto

lemma distinct_first_seen: "distinct (first_seen xs)"
  by (induction xs) auto

lemma fire_ice:
  "parseCardNameVariants U (ascii ''Fire // Ice'') =
     [ascii ''fire // ice'', ascii ''fire'', ascii ''ice'']"
  by (simp add: parseCardNameVariants_def array_from_Set_def string_eval)

lemma parseCardNameVariants_first_seen:
  "parseCardNameVariants U input =
     first_seen (normalizeName U input #
       (if includes_str (normalizeName U input) (ascii ''//'')
        then map trim (split_str (normalizeName U input) (ascii ''//'')) else []))"
  by (simp add: parseCardNameVariants_def array_from_Set_first_seen Let_def)

lemma parseCardNameVariants_hd: "hd (parseCardNameVariants U input) = normalizeName U input"
  unfolding parseCardNameVariants_first_seen by simp

text \<open>
  Claim C8. \<open>parseCardNameVariants\<close> returns the normalized input first; when the
  normalized input contains \<^verbatim>\<open>//\<close>, the trimmed pieces between the separators follow in
  order, duplicates removed and first-seen order kept; and \<^verbatim>\<open>"Fire // Ice"\<close> yields
  exactly \<^verbatim>\<open>["fire // ice", "fire", "ice"]\<close>.
\<close>

theorem parseCardNameVariants_spec:
  "hd (parseCardNameVariants U input) = normalizeName U input \<and>
   distinct (parseCardNameVariants U input) \<and>
   parseCardNameVariants U input =
     first_seen (normalizeName U input #
       (if includes_str (normalizeName U input) (ascii ''//'')
        then map trim (split_str (normalizeName U input) (ascii ''//'')) else [])) \<and>
   parseCardNameVariants U (ascii ''Fire // Ice'') =
     [ascii ''fire // ice'', ascii ''fire'', ascii ''ice'']"
proof -
  have "distinct (parseCardNameVariants U input)"
    unfolding parseCardNameVariants_first_seen by (rule distinct_first_seen)
  then show ?thesis
    using parseCardNameVariants_hd [of U input] parseCardNameVariants_first_seen [of U input]
      fire_ice [of U]
    by blast
qed

theorem parseCardNameVariants_spec_witness:
  "parseCardNameVariants latin1 (ascii ''  Ice //  ICE // Fire '') =
     [ascii ''ice // ice // fire'', ascii ''ice'', ascii ''fire''] \<and>
   parseCardNameVariants latin1 (ascii ''Opt'') = [ascii ''opt'']"
proof -
  have n1: "normalizeName latin1 (ascii ''  Ice //  ICE // Fire '') = ascii ''ice // ice // fire''"
    by (simp add: string_eval)
  have n2: "normalizeName latin1 (ascii ''Opt'') = ascii ''opt''"
    by (simp add: string_eval)
  show ?thesis
    using parseCardNameVariants_spec [of latin1 "ascii ''  Ice //  ICE // Fire ''"]
      parseCardNameVariants_spec [of latin1 "ascii ''Opt''"]
    unfolding n1 n2 by (simp add: string_eval)
qed

section \<open>Upserts and face rows\<close>

lemma find_replaced:
  "find P xs = Some old \<Longrightarrow> P new \<Longrightarrow> find P (map (\<lambda>c. if P c then new else c) xs) = Some new"
  by (induction xs) (auto split: if_splits)

lemma find_appended: "find P xs = None \<Longrightarrow> P new \<Longrightarrow> find P (xs @ [new]) = Some new"
  by (induction xs) (auto split: if_splits)

lemma card_update_keeps:
  "card_oracleId (card_update U sc old) = card_oracleId old"
  "card_id (card_update U sc old) = card_id old"
  by (simp_all add: card_update_def)

lemma card_create_key: "card_oracleId (card_create U sc i) = sc_oracle_id sc"
  by (simp add: card_create_def)

lemma db_card_upsert_finds:
  assumes "db_card_upsert (sc_oracle_id sc) (card_create U sc) (card_update U sc) db = (c, db1)"
  shows "find (\<lambda>x. card_oracleId x = sc_oracle_id sc) (db_cards db1) = Some c"
    and "db_cardFaces db1 = db_cardFaces db"
proof -
  let ?P = "\<lambda>x. card_oracleId x = sc_oracle_id sc"
  show "find ?P (db_cards db1) = Some c"
  proof (cases "find ?P (db_cards db)")
    case None
    then show ?thesis
      using assms find_appended [of ?P "db_cards db" "card_create U sc (db_nextId db)"]
      by (auto simp: db_card_upsert_def card_create_key)
  next
    case (Some old)
    then have "?P old" by (auto simp: find_Some_iff)
    then have "?P (card_update U sc old)" by (simp add: card_update_keeps)
    then show ?thesis
      using assms Some find_replaced [of ?P "db_cards db" old "card_update U sc old"]
      by (auto simp: db_card_upsert_def)
  qed
  show "db_cardFaces db1 = db_cardFaces db"
    using assms by (auto simp: db_card_upsert_def split: option.splits)
qed

lemma create_faces_rows:
  "db_cardFaces (create_faces U cid i faces db) = db_cardFaces db @ face_rows U cid i faces"
  "db_cards (create_faces U cid i faces db) = db_cards db"
  by (induction faces arbitrary: i db) (simp_all add: face_rows_def db_cardFace_create_def)

lemma faces_of_face_rows:
  "filter (\<lambda>f. cf_cardId f = cid') (face_rows U cid i faces) =
     (if cid' = cid then face_rows U cid i faces else [])"
  by (induction faces arbitrary: i) (auto simp: face_rows_def face_data_def)

lemma handle_faces_cards: "db_cards (handle_faces U sc c db) = db_cards db"
  by (simp add: handle_faces_def create_faces_rows db_cardFace_deleteMany_def
      split: option.splits)

lemma handle_faces_none:
  "sc_card_faces sc = None \<or> sc_card_faces sc = Some [] \<Longrightarrow> handle_faces U sc c db = db"
  by (auto simp: handle_faces_def)

lemma handle_faces_some:
  assumes "sc_card_faces sc = Some (f # fs)"
  shows "faces_of (handle_faces U sc c db) cid =
           (if cid = card_id c then face_rows U (card_id c) 0 (f # fs) else faces_of db cid)"
  using assms
  by (auto simp: handle_faces_def faces_of_def create_faces_rows db_cardFace_deleteMany_def
      faces_of_face_rows simp del: create_faces.simps intro: filter_cong)

text \<open>
  Claim C5, as the code has it. An upsert that the store accepts, from the resolver
  (\<open>upsertCardFromScryfall\<close>) or from the sync (\<open>upsertCard\<close>), leaves the same store in both
  callers. When the incoming record carries at least one face, the face rows of the card
  are afterwards exactly the incoming faces, in order, with the indices 0, 1, 2, ..., no
  earlier face row of the card survives, and the face rows of other cards are untouched.
  When the record carries no list of faces or an empty one, the guard
  \<^verbatim>\<open>card_faces && card_faces.length > 0\<close> skips the replacement and the face table is
  left as it was.
\<close>

theorem upsert_replaces_faces:
  assumes "\<not> refuses (db_cards db) (db_cardFaces db) sc"
  shows "\<exists>db' c.
           upsertCard U refuses sc db = Some db' \<and>
           upsertCardFromScryfall U refuses sc db = Some (c, db') \<and>
           find (\<lambda>x. card_oracleId x = sc_oracle_id sc) (db_cards db') = Some c \<and>
           (case sc_card_faces sc of
              Some (f # fs) \<Rightarrow>
                faces_of db' (card_id c) = face_rows U (card_id c) 0 (f # fs) \<and>
                (\<forall>cid. cid \<noteq> card_id c \<longrightarrow> faces_of db' cid = faces_of db cid)
            | _ \<Rightarrow> db_cardFaces db' = db_cardFaces db)"
proof -
  obtain c db1 where
    up: "db_card_upsert (sc_oracle_id sc) (card_create U sc) (card_update U sc) db = (c, db1)"
    by (cases "db_card_upsert (sc_oracle_id sc) (card_create U sc) (card_update U sc) db")
  let ?db' = "handle_faces U sc c db1"
  have 1: "upsertCard U refuses sc db = Some ?db'"
    using assms up by (simp add: upsertCard_def)
  have 2: "upsertCardFromScryfall U refuses sc db = Some (c, ?db')"
    using assms up by (simp add: upsertCardFromScryfall_def)
  have 3: "find (\<lambda>x. card_oracleId x = sc_oracle_id sc) (db_cards ?db') = Some c"
    using db_card_upsert_finds(1) [OF up] by (simp add: handle_faces_cards)
  have f1: "faces_of db1 cid = faces_of db cid" for cid
    using db_card_upsert_finds(2) [OF up] by (simp add: faces_of_def)
  have 4: "case sc_card_faces sc of
              Some (f # fs) \<Rightarrow>
                faces_of ?db' (card_id c) = face_rows U (card_id c) 0 (f # fs) \<and>
                (\<forall>cid. cid \<noteq> card_id c \<longrightarrow> faces_of ?db' cid = faces_of db cid)
            | _ \<Rightarrow> db_cardFaces ?db' = db_cardFaces db"
  proof (cases "sc_card_faces sc")
    case None
    then show ?thesis
      using handle_faces_none [of sc U c db1] db_card_upsert_finds(2) [OF up] by simp
  next
    case (Some faces)
    show ?thesis
    proof (cases faces)
      case Nil
      then show ?thesis
        using Some handle_faces_none [of sc U c db1] db_card_upsert_finds(2) [OF up] by simp
    next
      case (Cons f fs)
      then show ?thesis
        using Some handle_faces_some [of sc f fs U c db1] f1 by simp
    qed
  qed
  from 1 2 3 4 show ?thesis by blast
qed

lemma card_create_id: "card_id (card_create U sc i) = i"
  by (simp add: card_create_def)

lemma db_fire_ice_value:
  "db_fire_ice =
     \<lparr>db_cards = [card_create latin1 fire_ice_two_faces 0],
      db_cardFaces = face_rows latin1 0 0 [example_face (ascii ''Fire'') (ascii ''Instant''),
              example_face (ascii ''Ice'') (ascii ''Instant'')],
      db_rulings = [], db_syncRuns = [], db_nextId = 1\<rparr>"
  by (simp add: db_fire_ice_def upsertCardBatch_def upsertCard_def accepts_all_def
      db_card_upsert_def empty_db_def handle_faces_def fire_ice_two_faces_def example_card_def
      db_cardFace_deleteMany_def db_cardFace_create_def face_rows_def card_create_id)

text \<open>
  The claim as stated also covers records with zero faces. Fire // Ice is stored with its
  two faces; the same card then arrives with an empty list of faces (through the sync)
  and with no list of faces (through the resolver). Both upserts succeed, and the two old
  face rows are still stored for the card.
\<close>

theorem stale_faces_counterexample:
  "sc_card_faces fire_ice_empty_faces = Some [] \<and>
   stored_face_names 0 db_fire_ice = [ascii ''Fire'', ascii ''Ice''] \<and>
   map_option (stored_face_names 0) (upsertCard latin1 accepts_all fire_ice_empty_faces db_fire_ice)
     = Some [ascii ''Fire'', ascii ''Ice''] \<and>
   sc_card_faces fire_ice_no_faces = None \<and>
   map_option (stored_face_names 0 \<circ> snd)
     (upsertCardFromScryfall latin1 accepts_all fire_ice_no_faces db_fire_ice)
     = Some [ascii ''Fire'', ascii ''Ice'']"
  by (simp add: db_fire_ice_value upsertCard_def upsertCardFromScryfall_def accepts_all_def
      db_card_upsert_def handle_faces_def fire_ice_empty_faces_def fire_ice_no_faces_def
      example_card_def card_create_def stored_face_names_def faces_of_def face_rows_def
      face_data_def example_face_def fire_ice_two_faces_def)

theorem upsert_replaces_faces_witness:
  "\<not> accepts_all (db_cards db_fire_ice) (db_cardFaces db_fire_ice) fire_ice_two_faces \<and>
   (\<exists>db' c.
      upsertCard latin1 accepts_all fire_ice_two_faces db_fire_ice = Some db' \<and>
      upsertCardFromScryfall latin1 accepts_all fire_ice_two_faces db_fire_ice = Some (c, db') \<and>
      stored_face_names (card_id c) db' = [ascii ''Fire'', ascii ''Ice''] \<and>
      map cf_faceIndex (faces_of db' (card_id c)) = [0, 1])"
proof -
  have r: "\<not> accepts_all (db_cards db_fire_ice) (db_cardFaces db_fire_ice) fire_ice_two_faces"
    by (simp add: accepts_all_def)
  have f: "sc_card_faces fire_ice_two_faces =
             Some [example_face (ascii ''Fire'') (ascii ''Instant''),
                   example_face (ascii ''Ice'') (ascii ''Instant'')]"
    by (simp add: fire_ice_two_faces_def example_card_def)
  from upsert_replaces_faces [where refuses = accepts_all and db = db_fire_ice and
      sc = fire_ice_two_faces and U = latin1, OF r] obtain db' c where
    1: "upsertCard latin1 accepts_all fire_ice_two_faces db_fire_ice = Some db'" and
    2: "upsertCardFromScryfall latin1 accepts_all fire_ice_two_faces db_fire_ice = Some (c, db')" and
    3: "faces_of db' (card_id c) = face_rows latin1 (card_id c) 0
          [example_face (ascii ''Fire'') (ascii ''Instant''),
           example_face (ascii ''Ice'') (ascii ''Instant'')]"
    unfolding f by auto
  have 4: "stored_face_names (card_id c) db' = [ascii ''Fire'', ascii ''Ice'']"
    by (simp add: stored_face_names_def 3 face_rows_def face_data_def example_face_def)
  have 5: "map cf_faceIndex (faces_of db' (card_id c)) = [0, 1]"
    by (simp add: 3 face_rows_def face_data_def)
  show ?thesis
    by (rule conjI [OF r], rule exI [of _ db'], rule exI [of _ c]) (simp only: 1 2 4 5)
qed

section \<open>The resolver\<close>

lemma resolve_after_misses:
  assumes "find (\<lambda>c. card_normalizedName c = normalizeName U input) (db_cards db) = None"
    and "find_face db (parseCardNameVariants U input) = None"
    and "find (\<lambda>c. normalizeName U (card_name c) = normalizeName U input)
           (prefix_candidates db (normalizeName U input)) = None"
  shows "resolveCardName U fetch refuses input db =
           (if length (prefix_candidates db (normalizeName U input)) > 1
            then (Inr \<lparr>res_status = ambiguous, res_card = None,
                       res_candidates =
                         Some (map select_candidate (prefix_candidates db (normalizeName U input))),
                       res_matchedFace = None, res_input = input\<rparr>, db)
            else fetchAndCacheFromScryfall U fetch refuses input db)"
  using assms
  by (simp add: resolveCardName_def parseCardNameVariants_hd Let_def)

lemma example_names:
  "normalizeName U (ascii ''brai'') = ascii ''brai''"
  "normalizeName U (ascii ''Brainstorm'') = ascii ''brainstorm''"
  "normalizeName U (ascii ''Brainstone'') = ascii ''brainstone''"
  "normalizeName U (ascii ''Lightning Bolt'') = ascii ''lightning bolt''"
  "normalizeName U (ascii ''Lightning Blot'') = ascii ''lightning blot''"
  by (simp_all add: string_eval)

lemma db_brain_value:
  "db_brain U =
     \<lparr>db_cards = [card_create U brainstorm 0, card_create U brainstone 1],
      db_cardFaces = [], db_rulings = [], db_syncRuns = [], db_nextId = 2\<rparr>"
  by (simp add: db_brain_def upsertCardBatch_def upsertCard_def accepts_all_def
      db_card_upsert_def empty_db_def handle_faces_def brainstorm_def brainstone_def
      example_card_def card_create_def ascii_def)

lemma brai_ambiguous:
  "resolveCardName U fetch refuses (ascii ''brai'') (db_brain U) =
     (Inr \<lparr>res_status = ambiguous, res_card = None,
           res_candidates =
             Some [\<lparr>cand_name = ascii ''Brainstorm'', cand_oracleId = ascii ''o-brainstorm'',
                    cand_typeLine = ascii ''Instant''\<rparr>,
                   \<lparr>cand_name = ascii ''Brainstone'', cand_oracleId = ascii ''o-brainstone'',
                    cand_typeLine = ascii ''Artifact''\<rparr>],
           res_matchedFace = None, res_input = ascii ''brai''\<rparr>, db_brain U)"
proof -
  have v: "parseCardNameVariants U (ascii ''brai'') = [ascii ''brai'']"
    by (simp add: parseCardNameVariants_def example_names array_from_Set_def) (simp add: ascii_def startsWith_def)
  have c: "prefix_candidates (db_brain U) (ascii ''brai'') =
             [card_create U brainstorm 0, card_create U brainstone 1]"
    by (simp add: prefix_candidates_def db_brain_value card_create_def brainstorm_def
        brainstone_def example_card_def example_names) (simp add: ascii_def startsWith_def)
  show ?thesis
    apply (subst resolve_after_misses)
       apply (simp add: example_names db_brain_value card_create_def brainstorm_def
        brainstone_def example_card_def, simp add: ascii_def)
      apply (simp add: v db_brain_value)
     apply (simp add: example_names c card_create_def brainstorm_def
        brainstone_def example_card_def, simp add: ascii_def)
    apply (simp add: example_names c select_candidate_def card_create_def brainstorm_def
        brainstone_def example_card_def)
    done
qed

text \<open>
  Claim C9. When the exact match and the face match miss, the prefix scan (prefix length
  \<open>max 3 (length p div 2)\<close> of the primary variant \<open>p\<close>, at most 10 rows) finds more
  than one candidate and no candidate's normalized name is \<open>p\<close>, \<open>resolveCardName\<close>
  returns \<open>ambiguous\<close> with exactly those candidates (name, oracle id, type line), selects
  none of them and leaves the store as it is. With Brainstorm and Brainstone stored and
  nothing else, \<^verbatim>\<open>brai\<close> resolves to \<open>ambiguous\<close> with both as candidates.
\<close>

theorem resolve_ambiguous:
  "(find (\<lambda>c. card_normalizedName c = normalizeName U input) (db_cards db) = None \<and>
    find_face db (parseCardNameVariants U input) = None \<and>
    1 < length (prefix_candidates db (normalizeName U input)) \<and>
    (\<forall>c \<in> set (prefix_candidates db (normalizeName U input)).
       normalizeName U (card_name c) \<noteq> normalizeName U input)
    \<longrightarrow>
      resolveCardName U fetch refuses input db =
        (Inr \<lparr>res_status = ambiguous, res_card = None,
              res_candidates =
                Some (map select_candidate (prefix_candidates db (normalizeName U input))),
              res_matchedFace = None, res_input = input\<rparr>, db) \<and>
      length (prefix_candidates db (normalizeName U input)) \<le> 10) \<and>
   resolveCardName U fetch refuses (ascii ''brai'') (db_brain U) =
     (Inr \<lparr>res_status = ambiguous, res_card = None,
           res_candidates =
             Some [\<lparr>cand_name = ascii ''Brainstorm'', cand_oracleId = ascii ''o-brainstorm'',
                    cand_typeLine = ascii ''Instant''\<rparr>,
                   \<lparr>cand_name = ascii ''Brainstone'', cand_oracleId = ascii ''o-brainstone'',
                    cand_typeLine = ascii ''Artifact''\<rparr>],
           res_matchedFace = None, res_input = ascii ''brai''\<rparr>, db_brain U)"
proof (intro conjI impI)
  assume h: "find (\<lambda>c. card_normalizedName c = normalizeName U input) (db_cards db) = None \<and>
    find_face db (parseCardNameVariants U input) = None \<and>
    1 < length (prefix_candidates db (normalizeName U input)) \<and>
    (\<forall>c \<in> set (prefix_candidates db (normalizeName U input)).
       normalizeName U (card_name c) \<noteq> normalizeName U input)"
  then have none: "find (\<lambda>c. normalizeName U (card_name c) = normalizeName U input)
           (prefix_candidates db (normalizeName U input)) = None"
    by (simp add: find_None_iff)
  from h show "resolveCardName U fetch refuses input db =
        (Inr \<lparr>res_status = ambiguous, res_card = None,
              res_candidates =
                Some (map select_candidate (prefix_candidates db (normalizeName U input))),
              res_matchedFace = None, res_input = input\<rparr>, db)"
    by (simp add: resolve_after_misses [OF _ _ none])
next
  show "length (prefix_candidates db (normalizeName U input)) \<le> 10"
    by (simp add: prefix_candidates_def)
next
  show "resolveCardName U fetch refuses (ascii ''brai'') (db_brain U) =
     (Inr \<lparr>res_status = ambiguous, res_card = None,
           res_candidates =
             Some [\<lparr>cand_name = ascii ''Brainstorm'', cand_oracleId = ascii ''o-brainstorm'',
                    cand_typeLine = ascii ''Instant''\<rparr>,
                   \<lparr>cand_name = ascii ''Brainstone'', cand_oracleId = ascii ''o-brainstone'',
                    cand_typeLine = ascii ''Artifact''\<rparr>],
           res_matchedFace = None, res_input = ascii ''brai''\<rparr>, db_brain U)"
    by (rule brai_ambiguous)
qed

theorem resolve_ambiguous_witness:
  "find (\<lambda>c. card_normalizedName c = normalizeName latin1 (ascii '' Brains? ''))
     (db_cards (db_brain latin1)) = None \<and>
   find_face (db_brain latin1) (parseCardNameVariants latin1 (ascii '' Brains? '')) = None \<and>
   length (prefix_candidates (db_brain latin1) (normalizeName latin1 (ascii '' Brains? ''))) = 2 \<and>
   map (normalizeName latin1 \<circ> card_name)
     (prefix_candidates (db_brain latin1) (normalizeName latin1 (ascii '' Brains? ''))) =
     [ascii ''brainstorm'', ascii ''brainstone''] \<and>
   resolveCardName latin1 remote_404 accepts_all (ascii '' Brains? '') (db_brain latin1) =
     (Inr \<lparr>res_status = ambiguous, res_card = None,
           res_candidates =
             Some [\<lparr>cand_name = ascii ''Brainstorm'', cand_oracleId = ascii ''o-brainstorm'',
                    cand_typeLine = ascii ''Instant''\<rparr>,
                   \<lparr>cand_name = ascii ''Brainstone'', cand_oracleId = ascii ''o-brainstone'',
                    cand_typeLine = ascii ''Artifact''\<rparr>],
           res_matchedFace = None, res_input = ascii '' Brains? ''\<rparr>, db_brain latin1)"
proof -
  have n: "normalizeName latin1 (ascii '' Brains? '') = ascii ''brains''"
    by (simp add: string_eval)
  have v: "parseCardNameVariants latin1 (ascii '' Brains? '') = [ascii ''brains'']"
    by (simp add: parseCardNameVariants_def n array_from_Set_def) (simp add: ascii_def startsWith_def)
  have c: "prefix_candidates (db_brain latin1) (ascii ''brains'') =
             [card_create latin1 brainstorm 0, card_create latin1 brainstone 1]"
    by (simp add: prefix_candidates_def db_brain_value card_create_def brainstorm_def
        brainstone_def example_card_def example_names) (simp add: ascii_def startsWith_def)
  have 1: "find (\<lambda>c. card_normalizedName c = ascii ''brains'') (db_cards (db_brain latin1)) = None"
    by (simp add: example_names db_brain_value card_create_def brainstorm_def
        brainstone_def example_card_def) (simp add: ascii_def)
  have 2: "find_face (db_brain latin1) [ascii ''brains''] = None"
    by (simp add: db_brain_value)
  have 4: "map (normalizeName latin1 \<circ> card_name)
             [card_create latin1 brainstorm 0, card_create latin1 brainstone 1] =
           [ascii ''brainstorm'', ascii ''brainstone'']"
    by (simp add: card_create_def brainstorm_def brainstone_def example_card_def example_names)
  have 5: "\<forall>c \<in> set [card_create latin1 brainstorm 0, card_create latin1 brainstone 1].
             normalizeName latin1 (card_name c) \<noteq> ascii ''brains''"
    by (simp add: card_create_def brainstorm_def brainstone_def example_card_def example_names)
      (simp add: ascii_def)
  have s: "map select_candidate [card_create latin1 brainstorm 0, card_create latin1 brainstone 1] =
             [\<lparr>cand_name = ascii ''Brainstorm'', cand_oracleId = ascii ''o-brainstorm'',
                    cand_typeLine = ascii ''Instant''\<rparr>,
                   \<lparr>cand_name = ascii ''Brainstone'', cand_oracleId = ascii ''o-brainstone'',
                    cand_typeLine = ascii ''Artifact''\<rparr>]"
    by (simp add: select_candidate_def card_create_def brainstorm_def brainstone_def
        example_card_def)
  show ?thesis
    using resolve_ambiguous [of latin1 "ascii '' Brains? ''" "db_brain latin1" remote_404
        accepts_all] 1 2 4 5
    unfolding n v c s by simp
qed

text \<open>
  Claim C10. When the exact match and the face match miss and the prefix scan finds
  exactly one candidate, whose normalized name is not the primary variant,
  \<open>resolveCardName\<close> returns what \<open>fetchAndCacheFromScryfall\<close> returns: \<open>not_found\<close> when
  Scryfall answers 404, \<open>fuzzy\<close> when Scryfall finds a card and the store accepts it, and
  the exception when the request fails; its status is never \<open>normalized\<close> or \<open>ambiguous\<close>.
\<close>

theorem resolve_single_candidate:
  assumes "find (\<lambda>c. card_normalizedName c = normalizeName U input) (db_cards db) = None"
    and "find_face db (parseCardNameVariants U input) = None"
    and "prefix_candidates db (normalizeName U input) = [c]"
    and "normalizeName U (card_name c) \<noteq> normalizeName U input"
  shows "resolveCardName U fetch refuses input db =
           fetchAndCacheFromScryfall U fetch refuses input db \<and>
         (getCardByName fetch input True = Inr None \<longrightarrow>
            resolveCardName U fetch refuses input db =
              (Inr \<lparr>res_status = not_found, res_card = None, res_candidates = None,
                    res_matchedFace = None, res_input = input\<rparr>, db)) \<and>
         (\<forall>sc. getCardByName fetch input True = Inr (Some sc) \<and>
              \<not> refuses (db_cards db) (db_cardFaces db) sc \<longrightarrow>
            (\<exists>r db'. resolveCardName U fetch refuses input db = (Inr r, db') \<and>
               res_status r = fuzzy \<and> res_candidates r = None)) \<and>
         (\<forall>e. getCardByName fetch input True = Inl e \<longrightarrow>
            resolveCardName U fetch refuses input db = (Inl e, db)) \<and>
         (\<forall>r db'. resolveCardName U fetch refuses input db = (Inr r, db') \<longrightarrow>
            res_status r = fuzzy \<or> res_status r = not_found)"
proof -
  have none: "find (\<lambda>c. normalizeName U (card_name c) = normalizeName U input)
           (prefix_candidates db (normalizeName U input)) = None"
    using assms(3,4) by simp
  have eq: "resolveCardName U fetch refuses input db =
           fetchAndCacheFromScryfall U fetch refuses input db"
    using resolve_after_misses [OF assms(1,2) none] assms(3) by simp
  have 2: "getCardByName fetch input True = Inr None \<Longrightarrow>
            fetchAndCacheFromScryfall U fetch refuses input db =
              (Inr \<lparr>res_status = not_found, res_card = None, res_candidates = None,
                    res_matchedFace = None, res_input = input\<rparr>, db)"
    by (simp add: fetchAndCacheFromScryfall_def)
  have 3: "\<exists>r db'. fetchAndCacheFromScryfall U fetch refuses input db = (Inr r, db') \<and>
               res_status r = fuzzy \<and> res_candidates r = None"
    if "getCardByName fetch input True = Inr (Some sc)" "\<not> refuses (db_cards db) (db_cardFaces db) sc" for sc
    using that
    by (auto simp: fetchAndCacheFromScryfall_def upsertCardFromScryfall_def Let_def
        split: prod.splits sum.splits)
  have 4: "getCardByName fetch input True = Inl e \<Longrightarrow>
            fetchAndCacheFromScryfall U fetch refuses input db = (Inl e, db)" for e
    by (simp add: fetchAndCacheFromScryfall_def)
  have 5: "res_status r = fuzzy \<or> res_status r = not_found"
    if "fetchAndCacheFromScryfall U fetch refuses input db = (Inr r, db')" for r db'
    using that
    by (auto simp: fetchAndCacheFromScryfall_def Let_def
        split: prod.splits sum.splits option.splits)
  show ?thesis unfolding eq using 2 3 4 5 by blast
qed

lemma db_bolt_value:
  "db_bolt =
     \<lparr>db_cards = [card_create latin1 lightning_bolt 0],
      db_cardFaces = [], db_rulings = [], db_syncRuns = [], db_nextId = 1\<rparr>"
  by (simp add: db_bolt_def upsertCardBatch_def upsertCard_def accepts_all_def
      db_card_upsert_def empty_db_def handle_faces_def lightning_bolt_def
      example_card_def card_create_def)

theorem resolve_single_candidate_witness:
  "prefix_candidates db_bolt (normalizeName latin1 (ascii ''Lightning Blot'')) =
     [card_create latin1 lightning_bolt 0] \<and>
   normalizeName latin1 (card_name (card_create latin1 lightning_bolt 0)) = ascii ''lightning bolt'' \<and>
   normalizeName latin1 (ascii ''Lightning Blot'') = ascii ''lightning blot'' \<and>
   resolveCardName latin1 remote_404 accepts_all (ascii ''Lightning Blot'') db_bolt =
     (Inr \<lparr>res_status = not_found, res_card = None, res_candidates = None,
           res_matchedFace = None, res_input = ascii ''Lightning Blot''\<rparr>, db_bolt) \<and>
   (\<exists>r db'. resolveCardName latin1 remote_bolt accepts_all (ascii ''Lightning Blot'') db_bolt =
      (Inr r, db') \<and> res_status r = fuzzy)"
proof -
  let ?input = "ascii ''Lightning Blot''"
  let ?c = "card_create latin1 lightning_bolt 0"
  have n: "normalizeName latin1 ?input = ascii ''lightning blot''"
    by (rule example_names)
  have nc: "normalizeName latin1 (card_name ?c) = ascii ''lightning bolt''"
    by (simp add: card_create_def lightning_bolt_def example_card_def example_names)
  have v: "parseCardNameVariants latin1 ?input = [ascii ''lightning blot'']"
    by (simp add: parseCardNameVariants_def n array_from_Set_def) (simp add: ascii_def startsWith_def)
  have 1: "find (\<lambda>c. card_normalizedName c = normalizeName latin1 ?input) (db_cards db_bolt) = None"
    unfolding n
    by (simp add: db_bolt_value card_create_def lightning_bolt_def example_card_def example_names)
      (simp add: ascii_def)
  have 2: "find_face db_bolt (parseCardNameVariants latin1 ?input) = None"
    by (simp add: v db_bolt_value)
  have 3: "prefix_candidates db_bolt (normalizeName latin1 ?input) = [?c]"
    unfolding n
    by (simp add: prefix_candidates_def db_bolt_value)
      (simp add: card_create_def lightning_bolt_def example_card_def example_names,
        simp add: ascii_def startsWith_def)
  have 4: "normalizeName latin1 (card_name ?c) \<noteq> normalizeName latin1 ?input"
    unfolding n nc by (simp add: ascii_def)
  have miss: "getCardByName remote_404 ?input True = Inr None"
    by (simp add: getCardByName_def remote_404_def)
  have hit: "getCardByName remote_bolt ?input True = Inr (Some lightning_bolt)"
    by (simp add: getCardByName_def remote_bolt_def response_ok_def)
  have acc: "\<not> accepts_all (db_cards db_bolt) (db_cardFaces db_bolt) lightning_bolt"
    by (simp add: accepts_all_def)
  from resolve_single_candidate [OF 1 2 3 4, of remote_404 accepts_all] miss
  have a: "resolveCardName latin1 remote_404 accepts_all ?input db_bolt =
     (Inr \<lparr>res_status = not_found, res_card = None, res_candidates = None,
           res_matchedFace = None, res_input = ?input\<rparr>, db_bolt)"
    by blast
  from resolve_single_candidate [OF 1 2 3 4, of remote_bolt accepts_all] hit acc
  have b: "\<exists>r db'. resolveCardName latin1 remote_bolt accepts_all ?input db_bolt =
      (Inr r, db') \<and> res_status r = fuzzy"
    by blast
  from 3 nc n a b show ?thesis by (simp only: simp_thms)
qed

section \<open>The Scryfall client\<close>

declare fetch_attempts.simps [simp del]

lemma throttle_facts:
  "lastRequest (throttle E st) = now (throttle E st)"
  "trace (throttle E st) = trace st"
  "requests (throttle E st) = requests st"
  by (auto simp: throttle_def throttle_wait_def throttle_finish_def sleep_def Let_def)

lemma throttle_gap:
  assumes "lastRequest st \<le> now st" and "tolerance E early late"
  shows "lastRequest st + (minDelay - early) \<le> now (throttle E st)"
proof (cases "now st - lastRequest st < minDelay")
  case True
  let ?d = "minDelay - (now st - lastRequest st)"
  have "0 < ?d \<and> ?d \<le> minDelay" using True assms(1) by simp
  then have "?d - early \<le> eng_timer E (timers st) (Some ?d)"
    using assms(2) unfolding tolerance_def by blast
  then show ?thesis
    using True by (simp add: throttle_def throttle_wait_def throttle_finish_def sleep_def Let_def)
next
  case False
  moreover have "0 \<le> early" using assms(2) by (simp add: tolerance_def)
  ultimately show ?thesis
    by (simp add: throttle_def throttle_wait_def throttle_finish_def Let_def)
qed

lemma throttle_forward:
  "\<forall>k ms. 0 \<le> eng_timer E k ms \<Longrightarrow> now st \<le> now (throttle E st)"
  by (simp add: throttle_def throttle_wait_def throttle_finish_def sleep_def Let_def)

lemma sleep_facts:
  "lastRequest (sleep E ms st) = lastRequest st"
  "trace (sleep E ms st) = trace st"
  "requests (sleep E ms st) = requests st"
  by (simp_all add: sleep_def)

lemma sleep_forward: "\<forall>k ms. 0 \<le> eng_timer E k ms \<Longrightarrow> now st \<le> now (sleep E ms st)"
  by (simp add: sleep_def)

lemma fetch_call_facts:
  assumes "fetch_call E net timeout st = (s, st1)"
  shows "lastRequest st1 = lastRequest st"
    and "departures (trace st1) = departures (trace st) @ [now st + eng_lag E (requests st)]"
    and "requests st1 = Suc (requests st)"
proof -
  have d: "departures (es @ [Request t, Settled u]) = departures es @ [t]" for es t u
    by (induction es rule: departures.induct) auto
  show "lastRequest st1 = lastRequest st" "requests st1 = Suc (requests st)"
    using assms by (auto simp: fetch_call_def settle_def Let_def split: if_splits fetch_result.splits)
  show "departures (trace st1) = departures (trace st) @ [now st + eng_lag E (requests st)]"
    using assms d [of "trace st" "now st + eng_lag E (requests st)"]
    by (auto simp: fetch_call_def settle_def Let_def split: if_splits fetch_result.splits)
qed

lemma fetch_call_forward:
  assumes "fetch_call E net timeout st = (s, st1)"
    and "\<forall>k. 0 \<le> eng_lag E k" and "\<forall>k. 0 \<le> reply_latency (net k)" and "0 \<le> timeout"
  shows "now st \<le> now st1"
proof -
  have "0 \<le> eng_lag E (requests st)" "0 \<le> reply_latency (net (requests st))"
    using assms(2,3) by simp_all
  then show ?thesis
    using assms(1,4)
    by (auto simp: fetch_call_def settle_def Let_def split: if_splits fetch_result.splits)
qed

lemma spaced_snoc:
  "spaced gap (ts @ [t]) \<longleftrightarrow> spaced gap ts \<and> (ts \<noteq> [] \<longrightarrow> last ts + gap \<le> t)"
  by (induction gap ts rule: spaced.induct) auto

lemma throttled_request:
  assumes "throttled (minDelay - early - late) late st" and "tolerance E early late"
    and "\<forall>k ms. 0 \<le> eng_timer E k ms" and "\<forall>k. 0 \<le> eng_lag E k"
    and "\<forall>k. 0 \<le> reply_latency (net k)" and "0 \<le> timeout"
    and "fetch_call E net timeout (throttle E st) = (s, st1)"
  shows "throttled (minDelay - early - late) late st1"
proof -
  let ?ds = "departures (trace st)"
  let ?t = "now (throttle E st)"
  let ?l = "eng_lag E (requests st)"
  have le: "lastRequest st \<le> now st" using assms(1) by (simp add: throttled_def)
  have lag: "0 \<le> ?l" "?l \<le> late" using assms(2,4) by (simp_all add: tolerance_def)
  have ds: "departures (trace st1) = ?ds @ [?t + ?l]"
    using fetch_call_facts(2) [OF assms(7)] by (simp add: throttle_facts)
  have lr: "lastRequest st1 = ?t"
    using fetch_call_facts(1) [OF assms(7)] by (simp add: throttle_facts)
  have old: "\<forall>u \<in> set ?ds. u \<le> lastRequest st + late"
    using assms(1) by (simp add: throttled_def list_all_iff)
  have gap: "lastRequest st + (minDelay - early) \<le> ?t"
    using throttle_gap [OF le assms(2)] .
  have fwd: "lastRequest st \<le> ?t"
    using le throttle_forward [OF assms(3), of st] by simp
  have "?ds \<noteq> [] \<longrightarrow> last ?ds + (minDelay - early - late) \<le> ?t + ?l"
  proof
    assume "?ds \<noteq> []"
    then have "last ?ds \<le> lastRequest st + late" using old by simp
    then show "last ?ds + (minDelay - early - late) \<le> ?t + ?l" using gap lag(1) by simp
  qed
  moreover have "\<forall>u \<in> set ?ds. u \<le> ?t + late" using old fwd by fastforce
  moreover have "?t \<le> now st1"
    using fetch_call_forward [OF assms(7) assms(4) assms(5) assms(6)] .
  ultimately show ?thesis
    using assms(1) lag(2) by (simp add: throttled_def ds lr spaced_snoc list_all_iff)
qed

lemma throttled_sleep:
  "throttled gap late st \<Longrightarrow> \<forall>k ms. 0 \<le> eng_timer E k ms \<Longrightarrow>
   throttled gap late (sleep E ms st)"
  using sleep_forward [of E st ms] by (simp add: throttled_def sleep_facts)

lemma throttled_fetch_attempts:
  assumes "throttled (minDelay - early - late) late st" and "tolerance E early late"
    and "\<forall>k ms. 0 \<le> eng_timer E k ms" and "\<forall>k. 0 \<le> eng_lag E k"
    and "\<forall>k. 0 \<le> reply_latency (net k)" and "0 \<le> timeout"
  shows "throttled (minDelay - early - late) late
           (snd (fetch_attempts E net retries timeout attempt st))"
  using assms
proof (induction E net retries timeout attempt st rule: fetch_attempts.induct)
  case (1 E net retries timeout attempt st)
  note env = 1(4-8)
  show ?case
  proof (cases "attempt < retries")
    case False
    then show ?thesis using 1(3) by (subst fetch_attempts.simps) simp
  next
    case True
    obtain s st1 where fc: "fetch_call E net timeout (throttle E st) = (s, st1)"
      by (cases "fetch_call E net timeout (throttle E st)")
    have t1: "throttled (minDelay - early - late) late st1"
      using throttled_request [OF 1(3) env fc] .
    show ?thesis
    proof (cases s)
      case (Response r)
      show ?thesis
      proof (cases "resp_status r = 429")
        case True
        have "throttled (minDelay - early - late) late
                (sleep E (retryAfter_ms (resp_retryAfter r)) st1)"
          using t1 env(2) by (rule throttled_sleep)
        from 1(1) [OF \<open>attempt < retries\<close> fc [symmetric] Response True this env]
        show ?thesis
          using \<open>attempt < retries\<close> fc Response True
          by (subst fetch_attempts.simps) simp
      next
        case False
        then show ?thesis
          using \<open>attempt < retries\<close> fc Response t1
          by (subst fetch_attempts.simps) simp
      qed
    next
      case AbortError
      then show ?thesis
        using \<open>attempt < retries\<close> fc t1
        by (subst fetch_attempts.simps) simp
    next
      case (OtherError m)
      show ?thesis
      proof (cases "attempt = retries - 1")
        case True
        then show ?thesis
          using \<open>attempt < retries\<close> fc OtherError t1
          by (subst fetch_attempts.simps) simp
      next
        case False
        have "throttled (minDelay - early - late) late
                (sleep E (Some (1000 * (attempt + 1))) st1)"
          using t1 env(2) by (rule throttled_sleep)
        from 1(2) [OF \<open>attempt < retries\<close> fc [symmetric] OtherError False this env]
        show ?thesis
          using \<open>attempt < retries\<close> fc OtherError False
          by (subst fetch_attempts.simps) simp
      qed
    qed
  qed
qed

lemma throttled_run_actions:
  assumes "throttled (minDelay - early - late) late st" and "tolerance E early late"
    and "forward E net actions"
  shows "throttled (minDelay - early - late) late (run_actions E net actions st)"
proof -
  have env: "\<forall>k ms. 0 \<le> eng_timer E k ms" "\<forall>k. 0 \<le> eng_lag E k"
    "\<forall>k. 0 \<le> reply_latency (net k)"
    and acts: "list_all (\<lambda>a. 0 \<le> duration a) actions"
    using assms(3) by (simp_all add: forward_def)
  show ?thesis
    using assms(1) acts
  proof (induction actions arbitrary: st)
    case Nil
    then show ?case by simp
  next
    case (Cons a actions)
    show ?case
    proof (cases a)
      case (Fetch retries timeout)
      then have "0 \<le> timeout" using Cons(3) by simp
      from throttled_fetch_attempts [OF Cons(2) assms(2) env this]
      have "throttled (minDelay - early - late) late
              (snd (fetchWithBackoff E net retries timeout st))"
        by (simp add: fetchWithBackoff_def)
      then show ?thesis using Cons(1) Cons(3) Fetch by simp
    next
      case (Idle d)
      then have "0 \<le> d" using Cons(3) by simp
      then have "throttled (minDelay - early - late) late (st\<lparr>now := now st + d\<rparr>)"
        using Cons(2) by (simp add: throttled_def)
      then show ?thesis using Cons(1) Cons(3) Idle by simp
    qed
  qed
qed

lemmas client_eval =
  fetchWithBackoff_def fetch_attempts.simps throttle_def throttle_wait_def throttle_finish_def
  sleep_def fetch_call_def settle_def minDelay_def retryAfter_ms_def parseInt_def
  digits_value_def isDigit_def punctual_def uneven_def node_delay_def

lemma requests_fetch_attempts_429:
  "\<forall>k. k < nat (retries - attempt) \<longrightarrow> replies_429 net timeout (requests st + k) \<Longrightarrow>
   fst (fetch_attempts E net retries timeout attempt st) =
     Inl (ScryfallError ''Max retries exceeded'' 503) \<and>
   requests (snd (fetch_attempts E net retries timeout attempt st)) =
     requests st + nat (retries - attempt)"
proof (induction E net retries timeout attempt st rule: fetch_attempts.induct)
  case (1 E net retries timeout attempt st)
  show ?case
  proof (cases "attempt < retries")
    case False
    then show ?thesis by (subst (1 2) fetch_attempts.simps) simp
  next
    case True
    then have "replies_429 net timeout (requests st)" using 1(3) [rule_format, of 0] by simp
    then obtain r where lat: "reply_latency (net (requests st)) < timeout"
      and res: "reply_result (net (requests st)) = Responds r" and st429: "resp_status r = 429"
      by (auto simp: replies_429_def split: fetch_result.splits)
    define st1 where "st1 = snd (fetch_call E net timeout (throttle E st))"
    have fc: "fetch_call E net timeout (throttle E st) = (Response r, st1)"
      using lat res by (simp add: st1_def fetch_call_def throttle_facts Let_def)
    let ?st2 = "sleep E (retryAfter_ms (resp_retryAfter r)) st1"
    have rq: "requests ?st2 = Suc (requests st)"
      using fetch_call_facts(3) [OF fc] by (simp add: sleep_facts throttle_facts)
    have "\<forall>k. k < nat (retries - (attempt + 1)) \<longrightarrow> replies_429 net timeout (requests ?st2 + k)"
    proof (intro allI impI)
      fix k assume "k < nat (retries - (attempt + 1))"
      then have "Suc k < nat (retries - attempt)" by linarith
      then show "replies_429 net timeout (requests ?st2 + k)"
        using 1(3) [rule_format, of "Suc k"] by (simp add: rq)
    qed
    from 1(1) [OF True fc [symmetric] refl st429 this]
    have ih: "fst (fetch_attempts E net retries timeout (attempt + 1) ?st2) =
                Inl (ScryfallError ''Max retries exceeded'' 503)"
      "requests (snd (fetch_attempts E net retries timeout (attempt + 1) ?st2)) =
         requests ?st2 + nat (retries - (attempt + 1))"
      by simp_all
    have step: "fetch_attempts E net retries timeout attempt st =
                  fetch_attempts E net retries timeout (attempt + 1) ?st2"
      using True fc st429 by (subst fetch_attempts.simps) simp
    have "Suc (nat (retries - (attempt + 1))) = nat (retries - attempt)" using True by linarith
    then show ?thesis using ih rq by (simp add: step)
  qed
qed

text \<open>
  Claim C4, as the code has it. A 429 response makes the client sleep the wait the server
  suggests (1000 ms when the \<^verbatim>\<open>Retry-After\<close> header is absent) and go on with the next
  attempt, \<open>attempt + 1\<close>: the \<^verbatim>\<open>continue\<close> runs the loop's increment, so the retry uses
  up one of the \<open>retries\<close> attempts. When each of the \<open>retries\<close> requests of a call is
  answered 429, the call has made exactly \<open>retries\<close> requests and throws
  \<^verbatim>\<open>Max retries exceeded\<close> (503).
\<close>

theorem rate_limit_retry_uses_an_attempt:
  "(attempt < retries \<and> fetch_call E net timeout (throttle E st) = (Response r, st1) \<and>
    resp_status r = 429 \<longrightarrow>
      fetch_attempts E net retries timeout attempt st =
        fetch_attempts E net retries timeout (attempt + 1)
          (sleep E (retryAfter_ms (resp_retryAfter r)) st1)) \<and>
   retryAfter_ms None = Some 1000 \<and>
   retryAfter_ms (Some (ascii ''120'')) = Some 120000 \<and>
   ((\<forall>k. k < nat retries \<longrightarrow> replies_429 net timeout (requests st + k)) \<longrightarrow>
      fst (fetchWithBackoff E net retries timeout st) =
        Inl (ScryfallError ''Max retries exceeded'' 503) \<and>
      requests (snd (fetchWithBackoff E net retries timeout st)) = requests st + nat retries)"
proof (intro conjI impI)
  assume "attempt < retries \<and> fetch_call E net timeout (throttle E st) = (Response r, st1) \<and>
    resp_status r = 429"
  then show "fetch_attempts E net retries timeout attempt st =
        fetch_attempts E net retries timeout (attempt + 1)
          (sleep E (retryAfter_ms (resp_retryAfter r)) st1)"
    by (subst fetch_attempts.simps) simp
next
  show "retryAfter_ms None = Some 1000"
    by (simp add: retryAfter_ms_def parseInt_def digits_value_def isDigit_def ascii_def
        isWhiteSpace_def)
next
  show "retryAfter_ms (Some (ascii ''120'')) = Some 120000"
    by (simp add: retryAfter_ms_def parseInt_def digits_value_def isDigit_def ascii_def
        isWhiteSpace_def)
next
  assume a: "\<forall>k. k < nat retries \<longrightarrow> replies_429 net timeout (requests st + k)"
  then have "\<forall>k. k < nat (retries - 0) \<longrightarrow> replies_429 net timeout (requests st + k)" by simp
  from requests_fetch_attempts_429 [OF this]
  show "fst (fetchWithBackoff E net retries timeout st) =
        Inl (ScryfallError ''Max retries exceeded'' 503)"
    and "requests (snd (fetchWithBackoff E net retries timeout st)) = requests st + nat retries"
    by (simp_all add: fetchWithBackoff_def)
qed

text \<open>
  The claim as stated: consecutive 429 responses never by themselves exhaust the budget.
  With the default budget of 3 and the default timeout, three 429 responses in a row end
  the call with \<^verbatim>\<open>Max retries exceeded\<close>, after three requests and three waits of one
  second (the timer firing on time), although the fourth request would have been answered
  200.
\<close>

theorem three_429_exhaust_the_budget:
  "fetchWithBackoff punctual net_429_thrice 3 30000 initial_client =
     (Inl (ScryfallError ''Max retries exceeded'' 503),
      \<lparr>now = 1700000003060, lastRequest = 1700000002040, requests = 3, timers = 3,
       trace = [Request 1700000000000, Settled 1700000000020,
                Request 1700000001020, Settled 1700000001040,
                Request 1700000002040, Settled 1700000002060]\<rparr>) \<and>
   reply_result (net_429_thrice 3) = Responds ok_response"
  by (simp add: client_eval initial_client_def net_429_thrice_def too_many_requests_def
      ok_response_def ascii_def isWhiteSpace_def)

theorem rate_limit_retry_uses_an_attempt_witness:
  "replies_429 net_429_thrice 30000 0 \<and> replies_429 net_429_thrice 30000 1 \<and>
   replies_429 net_429_thrice 30000 2 \<and>
   fst (fetchWithBackoff punctual net_429_thrice 3 30000 initial_client) =
     Inl (ScryfallError ''Max retries exceeded'' 503) \<and>
   requests (snd (fetchWithBackoff punctual net_429_thrice 3 30000 initial_client)) = 3"
proof -
  have r: "replies_429 net_429_thrice 30000 k" if "k < 3" for k
    using that by (simp add: replies_429_def net_429_thrice_def too_many_requests_def)
  have "\<forall>k. k < nat 3 \<longrightarrow> replies_429 net_429_thrice 30000 (requests initial_client + k)"
    by (simp add: initial_client_def r)
  with rate_limit_retry_uses_an_attempt [where retries = 3 and E = punctual and
      net = net_429_thrice and timeout = 30000 and st = initial_client]
  have "fst (fetchWithBackoff punctual net_429_thrice 3 30000 initial_client) =
          Inl (ScryfallError ''Max retries exceeded'' 503) \<and>
        requests (snd (fetchWithBackoff punctual net_429_thrice 3 30000 initial_client)) =
          requests initial_client + nat 3"
    by blast
  then show ?thesis using r [of 0] r [of 1] r [of 2] by (simp add: initial_client_def)
qed

text \<open>
  Claim C6, as the code has it. \<open>lastRequest\<close> is written when a request departs, not when
  it completes, so the interval is kept between departures; and \<^verbatim>\<open>throttle\<close> sets one
  timer for what is missing of the interval and takes the clock as it is when the timer
  has fired, without looking at the interval again. So for callers that use the client one
  after the other, whatever the network does and however long they pause in between, each
  request departs at least \<open>minDelay\<close> (100 ms) after the request before it departed, within
  the tolerance of the engine's timing: less the time \<open>early\<close> by which a timer may fire
  before its delay is over, and the time \<open>late\<close> that the engine may take from the return of
  \<^verbatim>\<open>throttle()\<close> to the call of \<^verbatim>\<open>fetch\<close>. The clock is taken not to run backwards.
\<close>

theorem departures_keep_minDelay:
  assumes "throttled (minDelay - early - late) late st"
    and "tolerance E early late" and "forward E net actions"
  shows "spaced (minDelay - early - late) (departures (trace (run_actions E net actions st))) \<and>
         list_all (\<lambda>t. t \<le> lastRequest (run_actions E net actions st) + late)
           (departures (trace (run_actions E net actions st)))"
  using throttled_run_actions [OF assms] by (simp add: throttled_def)

text \<open>
  The claim as stated measures the interval from the completion of the previous call. A
  first request that takes 150 ms is followed at once by a second call: 150 ms have passed
  since the first departure, \<^verbatim>\<open>throttle\<close> does not wait, and the second request departs at
  the instant the first call completed. (The engine is the punctual one.)
\<close>

theorem departs_as_previous_call_completes:
  "trace (run_actions punctual net_slow_then_fast [Fetch 3 30000, Fetch 3 30000] initial_client) =
     [Request 1700000000000, Settled 1700000000150,
      Request 1700000000150, Settled 1700000000160]"
  by (simp add: client_eval initial_client_def net_slow_then_fast_def ok_response_def)

text \<open>
  On the punctual engine three calls that are each answered in 10 ms depart exactly 100 ms
  apart. On the engine whose timers fire one millisecond early, and which takes one
  millisecond to send the first request, they depart 98 and 99 ms apart: the bound is
  reached.
\<close>

theorem departures_keep_minDelay_witness:
  "throttled (minDelay - 0 - 0) 0 initial_client \<and>
   departures (trace (run_actions punctual net_fast
     [Fetch 3 30000, Fetch 3 30000, Fetch 3 30000] initial_client)) =
     [1700000000000, 1700000000100, 1700000000200] \<and>
   spaced 100 [1700000000000, 1700000000100, 1700000000200] \<and>
   throttled (minDelay - 1 - 1) 1 initial_client \<and>
   departures (trace (run_actions uneven net_fast
     [Fetch 3 30000, Fetch 3 30000, Fetch 3 30000] initial_client)) =
     [1700000000001, 1700000000099, 1700000000198] \<and>
   spaced 98 [1700000000001, 1700000000099, 1700000000198]"
proof -
  let ?as = "[Fetch 3 30000, Fetch 3 30000, Fetch 3 30000]"
  have i: "throttled (minDelay - 0 - 0) 0 initial_client"
    "throttled (minDelay - 1 - 1) 1 initial_client"
    by (simp_all add: throttled_def initial_client_def)
  have t: "tolerance punctual 0 0" "tolerance uneven 1 1"
    by (simp_all add: tolerance_def punctual_def uneven_def node_delay_def minDelay_def)
  have f: "forward punctual net_fast ?as" "forward uneven net_fast ?as"
    by (simp_all add: forward_def punctual_def uneven_def node_delay_def net_fast_def
        split: option.splits)
  have d: "departures (trace (run_actions punctual net_fast ?as initial_client)) =
     [1700000000000, 1700000000100, 1700000000200]"
    "departures (trace (run_actions uneven net_fast ?as initial_client)) =
     [1700000000001, 1700000000099, 1700000000198]"
    by (simp_all add: client_eval initial_client_def net_fast_def ok_response_def)
  from departures_keep_minDelay [OF i(1) t(1) f(1)] departures_keep_minDelay [OF i(2) t(2) f(2)]
  have "spaced (minDelay - 0 - 0) [1700000000000, 1700000000100, 1700000000200]"
    "spaced (minDelay - 1 - 1) [1700000000001, 1700000000099, 1700000000198]"
    unfolding d by simp_all
  then have "spaced 100 [1700000000000, 1700000000100, 1700000000200]"
    "spaced 98 [1700000000001, 1700000000099, 1700000000198]"
    by (simp_all add: minDelay_def)
  with i d show ?thesis by simp
qed

text \<open>
  Callers that do not await one another are outside \<open>run_actions\<close>. Two calls of
  \<^verbatim>\<open>throttle()\<close> started in the same turn less than \<open>minDelay\<close> after the last request both
  read the same \<open>lastRequest\<close> and, on the punctual engine, return at the same instant.
\<close>

lemma throttle_two_at_once_same_instant:
  "now st - lastRequest st < minDelay \<Longrightarrow>
   fst (fst (throttle_two_at_once st)) = snd (fst (throttle_two_at_once st))"
  by (simp add: throttle_two_at_once_def throttle_wait_def throttle_finish_def sleep_def Let_def)
section \<open>The bulk sync\<close>

lemma process_line_read_line:
  "process_line U parse refuses rid resume line st =
     (case read_line parse line of
        Ignored \<Rightarrow> st
      | Malformed \<Rightarrow> st\<lparr>ls_failed := ls_failed st + 1\<rparr>
      | Record c \<Rightarrow>
          if ls_shouldSkip st
          then (if Some (sc_oracle_id c) = resume then st\<lparr>ls_shouldSkip := False\<rparr> else st)
          else push_card U refuses rid c st)"
  unfolding process_line_def read_line_def Let_def
  by (simp split: option.splits)

lemma process_lines_Nil [simp]: "process_lines U parse refuses rid resume [] st = st"
  by (simp add: process_lines_def)

lemma process_lines_Cons [simp]:
  "process_lines U parse refuses rid resume (l # ls) st =
     process_lines U parse refuses rid resume ls (process_line U parse refuses rid resume l st)"
  by (simp add: process_lines_def)

lemma process_lines_append:
  "process_lines U parse refuses rid resume (xs @ ys) st =
     process_lines U parse refuses rid resume ys (process_lines U parse refuses rid resume xs st)"
  by (simp add: process_lines_def)

lemma malformed_Cons:
  "malformed (i # is) = (if i = Malformed then 1 else 0) + malformed is"
  by (simp add: malformed_def)

lemma skip_prefix:
  assumes "ls_shouldSkip st"
    and "\<forall>c. Record c \<in> set (map (read_line parse) pre) \<longrightarrow> sc_oracle_id c \<noteq> X"
  shows "process_lines U parse refuses rid (Some X) pre st =
           st\<lparr>ls_failed := ls_failed st + malformed (map (read_line parse) pre)\<rparr>"
  using assms
proof (induction pre arbitrary: st)
  case Nil
  then show ?case by (simp add: malformed_def)
next
  case (Cons l pre)
  show ?case
  proof (cases "read_line parse l")
    case Ignored
    then show ?thesis using Cons by (simp add: process_line_read_line malformed_Cons)
  next
    case Malformed
    then show ?thesis using Cons by (simp add: process_line_read_line malformed_Cons)
  next
    case (Record c)
    then have "sc_oracle_id c \<noteq> X" using Cons(3) by simp
    then show ?thesis using Cons Record by (simp add: process_line_read_line malformed_Cons)
  qed
qed

lemma skip_match:
  assumes "ls_shouldSkip st" and "read_line parse x = Record cx" and "sc_oracle_id cx = X"
  shows "process_line U parse refuses rid (Some X) x st = st\<lparr>ls_shouldSkip := False\<rparr>"
  using assms by (simp add: process_line_read_line)

lemma push_card_shouldSkip:
  "ls_shouldSkip (push_card U refuses rid c st) = ls_shouldSkip st"
  by (simp add: push_card_def upsert_batch_def Let_def split: prod.splits)

lemma process_line_no_skip:
  assumes "\<not> ls_shouldSkip st"
  shows "process_line U parse refuses rid resume l st = process_line U parse refuses rid None l st"
    and "\<not> ls_shouldSkip (process_line U parse refuses rid resume l st)"
  using assms
  by (auto simp: process_line_read_line push_card_shouldSkip split: line_item.splits)

lemma process_lines_no_skip:
  "\<not> ls_shouldSkip st \<Longrightarrow>
   process_lines U parse refuses rid resume ls st = process_lines U parse refuses rid None ls st"
proof (induction ls arbitrary: st)
  case Nil
  show ?case by simp
next
  case (Cons l ls)
  have "\<not> ls_shouldSkip (process_line U parse refuses rid None l st)"
    using process_line_no_skip(2) [OF Cons(2)] .
  then show ?case
    using Cons(1) process_line_no_skip(1) [OF Cons(2), of U parse refuses rid resume l] by simp
qed

lemma skip_through_cursor:
  assumes "ls_shouldSkip st"
    and "\<forall>c. Record c \<in> set (map (read_line parse) pre) \<longrightarrow> sc_oracle_id c \<noteq> X"
    and "read_line parse x = Record cx" and "sc_oracle_id cx = X"
  shows "process_lines U parse refuses rid (Some X) (pre @ [x]) st =
           st\<lparr>ls_shouldSkip := False,
              ls_failed := ls_failed st + malformed (map (read_line parse) pre)\<rparr> \<and>
         process_lines U parse refuses rid (Some X) (pre @ [x] @ post) st =
           process_lines U parse refuses rid None post
             (st\<lparr>ls_shouldSkip := False,
                 ls_failed := ls_failed st + malformed (map (read_line parse) pre)\<rparr>)"
proof -
  let ?st1 = "st\<lparr>ls_failed := ls_failed st + malformed (map (read_line parse) pre)\<rparr>"
  have 1: "process_lines U parse refuses rid (Some X) pre st = ?st1"
    using skip_prefix [OF assms(1,2)] .
  have 2: "process_line U parse refuses rid (Some X) x ?st1 = ?st1\<lparr>ls_shouldSkip := False\<rparr>"
    using assms by (intro skip_match) simp_all
  have 3: "process_lines U parse refuses rid (Some X) (pre @ [x]) st =
             st\<lparr>ls_shouldSkip := False,
                ls_failed := ls_failed st + malformed (map (read_line parse) pre)\<rparr>"
    by (simp add: process_lines_append 1 2)
  have "process_lines U parse refuses rid (Some X) (pre @ [x] @ post) st =
          process_lines U parse refuses rid (Some X) post
            (process_lines U parse refuses rid (Some X) (pre @ [x]) st)"
    using process_lines_append [of U parse refuses rid "Some X" "pre @ [x]" post st] by simp
  then show ?thesis
    unfolding 3
    by (simp add: process_lines_no_skip [where resume = "Some X"])
qed

lemma store_calls_without_runs:
  "db_cardFace_create f (without_runs db) = without_runs (db_cardFace_create f db)"
  "db_cardFace_deleteMany cid (without_runs db) = without_runs (db_cardFace_deleteMany cid db)"
  "db_card_upsert oid cr up (without_runs db) =
     (fst (db_card_upsert oid cr up db), without_runs (snd (db_card_upsert oid cr up db)))"
  "db_cards (without_runs db) = db_cards db"
  "db_cardFaces (without_runs db) = db_cardFaces db"
  by (simp_all add: db_cardFace_create_def db_cardFace_deleteMany_def db_card_upsert_def
      without_runs_def split: option.splits)

lemma create_faces_without_runs:
  "create_faces U cid i faces (without_runs db) = without_runs (create_faces U cid i faces db)"
  by (induction faces arbitrary: i db) (simp_all add: store_calls_without_runs)

lemma handle_faces_without_runs:
  "handle_faces U c r (without_runs db) = without_runs (handle_faces U c r db)"
  by (simp add: handle_faces_def store_calls_without_runs create_faces_without_runs
      split: option.splits)

lemma upsertCard_without_runs:
  "upsertCard U refuses c (without_runs db) = map_option without_runs (upsertCard U refuses c db)"
  by (simp add: upsertCard_def store_calls_without_runs handle_faces_without_runs
      split: prod.splits)

lemma loop_without_runs:
  "upsertCardBatch_loop U refuses cs (result_without_runs s) =
     result_without_runs (upsertCardBatch_loop U refuses cs s)"
proof (induction cs arbitrary: s)
  case Nil
  show ?case by (cases s) simp
next
  case (Cons c cs)
  obtain p f db where s: "s = (p, f, db)" by (cases s)
  show ?case
  proof (cases "upsertCard U refuses c db")
    case None
    then show ?thesis using Cons [of "(p, f + 1, db)"] by (simp add: s upsertCard_without_runs)
  next
    case (Some db')
    then show ?thesis using Cons [of "(p + 1, f, db')"] by (simp add: s upsertCard_without_runs)
  qed
qed

lemma loop_append:
  "upsertCardBatch_loop U refuses (xs @ ys) s =
     upsertCardBatch_loop U refuses ys (upsertCardBatch_loop U refuses xs s)"
proof (induction xs arbitrary: s)
  case Nil
  show ?case by (cases s) simp
next
  case (Cons x xs)
  obtain p f db where s: "s = (p, f, db)" by (cases s)
  show ?case unfolding s using Cons by (simp split: option.splits)
qed

lemma loop_counters:
  "upsertCardBatch_loop U refuses cs (p, f, db) =
     (p + fst (upsertCardBatch U refuses cs db), f + fst (snd (upsertCardBatch U refuses cs db)),
      snd (snd (upsertCardBatch U refuses cs db)))"
proof -
  have "upsertCardBatch_loop U refuses cs (p + p', f + f', db) =
     (p + fst (upsertCardBatch_loop U refuses cs (p', f', db)),
      f + fst (snd (upsertCardBatch_loop U refuses cs (p', f', db))),
      snd (snd (upsertCardBatch_loop U refuses cs (p', f', db))))" for p' f'
  proof (induction cs arbitrary: p' f' db)
    case Nil
    show ?case by simp
  next
    case (Cons c cs)
    show ?case
      using Cons [of "p' + 1" f'] Cons [of p' "f' + 1"]
      by (simp split: option.splits add: add.assoc)
  qed
  from this [of 0 0] show ?thesis by (simp add: upsertCardBatch_def)
qed

lemma loop_add_failed:
  "upsertCardBatch_loop U refuses cs (add_failed n s) =
     add_failed n (upsertCardBatch_loop U refuses cs s)"
proof -
  obtain p f db where s: "s = (p, f, db)" by (cases s)
  show ?thesis
    unfolding s by (simp add: loop_counters [of U refuses cs p "f + n"] loop_counters [of U refuses cs p f])
qed

lemma without_runs_add_failed:
  "result_without_runs (add_failed n s) = add_failed n (result_without_runs s)"
  by (cases s) simp

lemma without_runs_update [simp]:
  "without_runs (db_syncRun_update rid g db) = without_runs db"
  by (simp add: without_runs_def db_syncRun_update_def)

lemma push_card_pending:
  "result_without_runs (pending U refuses (push_card U refuses rid c st)) =
     result_without_runs (upsertCardBatch_loop U refuses [c] (pending U refuses st))"
proof -
  let ?b = "ls_batch st @ [c]"
  have app: "upsertCardBatch_loop U refuses [c] (pending U refuses st) =
             upsertCardBatch_loop U refuses ?b (ls_processed st, ls_failed st, ls_db st)"
    by (simp only: pending_def loop_append)
  show ?thesis
  proof (cases "length ?b \<ge> BATCH_SIZE")
    case False
    then have "push_card U refuses rid c st =
                 st\<lparr>ls_batch := ?b, ls_lastOracleId := Some (sc_oracle_id c)\<rparr>"
      by (simp add: push_card_def Let_def)
    then show ?thesis by (simp only: app) (simp add: pending_def)
  next
    case True
    obtain s f db' where b: "upsertCardBatch U refuses ?b (ls_db st) = (s, f, db')"
      by (cases "upsertCardBatch U refuses ?b (ls_db st)")
    have "pending U refuses (push_card U refuses rid c st) =
            (ls_processed st + s, ls_failed st + f,
             db_syncRun_update rid
               (\<lambda>r. r\<lparr>run_processed := ls_processed st + s, run_failed := ls_failed st + f,
                       run_lastOracleId := Some (sc_oracle_id c)\<rparr>) db')"
      using True b by (simp add: push_card_def upsert_batch_def Let_def pending_def)
    then show ?thesis
      by (simp only: app) (simp add: loop_counters b)
  qed
qed

lemma loop_Nil [simp]: "upsertCardBatch_loop U refuses [] s = s"
  by (cases s) simp

lemma pending_failed:
  "pending U refuses (st\<lparr>ls_failed := ls_failed st + n\<rparr>) = add_failed n (pending U refuses st)"
  by (simp add: pending_def loop_counters [of U refuses _ _ "ls_failed st + n"]
      loop_counters [of U refuses _ _ "ls_failed st"])

lemma add_failed_add_failed: "add_failed m (add_failed n s) = add_failed (n + m) s"
  by (cases s) simp

lemma add_failed_0 [simp]: "add_failed 0 s = s"
  by (cases s) simp

lemma process_lines_pending:
  "\<not> ls_shouldSkip st \<Longrightarrow>
   result_without_runs (pending U refuses (process_lines U parse refuses rid None ls st)) =
     result_without_runs
       (add_failed (malformed (map (read_line parse) ls))
          (upsertCardBatch_loop U refuses (records (map (read_line parse) ls))
             (pending U refuses st)))"
proof (induction ls arbitrary: st)
  case Nil
  show ?case by (simp add: malformed_def)
next
  case (Cons l ls)
  let ?items = "map (read_line parse) ls"
  let ?st' = "process_line U parse refuses rid None l st"
  let ?F = "\<lambda>s. add_failed (malformed ?items) (upsertCardBatch_loop U refuses (records ?items) s)"
  have comm: "result_without_runs (?F s) = ?F (result_without_runs s)" for s
    by (simp add: without_runs_add_failed loop_without_runs)
  have ns: "\<not> ls_shouldSkip ?st'" using process_line_no_skip(2) [OF Cons(2)] .
  have ih: "result_without_runs (pending U refuses (process_lines U parse refuses rid None ls ?st')) =
            ?F (result_without_runs (pending U refuses ?st'))"
    using Cons(1) [OF ns] by (simp only: comm)
  show ?case
  proof (cases "read_line parse l")
    case Ignored
    then have "?st' = st" by (simp add: process_line_read_line)
    then show ?thesis using ih Ignored by (simp add: comm malformed_Cons)
  next
    case Malformed
    then have "?st' = st\<lparr>ls_failed := ls_failed st + 1\<rparr>" by (simp add: process_line_read_line)
    then have "pending U refuses ?st' = add_failed 1 (pending U refuses st)"
      by (simp only: pending_failed)
    then show ?thesis
      using ih Malformed
      by (simp add: malformed_Cons loop_add_failed add_failed_add_failed
          without_runs_add_failed loop_without_runs)
  next
    case (Record c)
    then have "?st' = push_card U refuses rid c st"
      using Cons(2) by (simp add: process_line_read_line)
    then have "result_without_runs (pending U refuses ?st') =
               result_without_runs (upsertCardBatch_loop U refuses [c] (pending U refuses st))"
      by (simp only: push_card_pending)
    then have "result_without_runs (pending U refuses (process_lines U parse refuses rid None ls ?st')) =
               result_without_runs (?F (upsertCardBatch_loop U refuses [c] (pending U refuses st)))"
      using ih by (simp only: comm)
    moreover have "upsertCardBatch_loop U refuses (records ?items)
                     (upsertCardBatch_loop U refuses [c] (pending U refuses st)) =
                   upsertCardBatch_loop U refuses (c # records ?items) (pending U refuses st)"
      using loop_append [of U refuses "[c]" "records ?items"] by simp
    ultimately show ?thesis using Record by (simp add: malformed_Cons)
  qed
qed

lemma push_card_buffer:
  "push_card U refuses rid c (st\<lparr>ls_buffer := b\<rparr>) = (push_card U refuses rid c st)\<lparr>ls_buffer := b\<rparr>"
  by (simp add: push_card_def upsert_batch_def Let_def split: prod.splits)

lemma process_line_buffer:
  "process_line U parse refuses rid resume l (st\<lparr>ls_buffer := b\<rparr>) =
     (process_line U parse refuses rid resume l st)\<lparr>ls_buffer := b\<rparr>"
  by (simp add: process_line_read_line push_card_buffer split: line_item.splits)

lemma process_lines_buffer:
  "process_lines U parse refuses rid resume ls (st\<lparr>ls_buffer := b\<rparr>) =
     (process_lines U parse refuses rid resume ls st)\<lparr>ls_buffer := b\<rparr>"
  by (induction ls arbitrary: st) (simp_all add: process_line_buffer)

lemma upsert_batch_pending:
  "(ls_processed (upsert_batch U refuses st), ls_failed (upsert_batch U refuses st),
    ls_db (upsert_batch U refuses st)) = pending U refuses st"
  by (simp add: upsert_batch_def pending_def loop_counters split: prod.splits)

lemma sync_loop_chunks:
  "\<forall>j. k \<le> j \<and> j \<le> k + length chunks \<longrightarrow> elapsed j \<le> MAX_RUNTIME_MS \<Longrightarrow>
   \<exists>st'. sync_loop U parse refuses elapsed rid resume k (map Chunk chunks) st = (Done, st') \<and>
     (ls_processed st', ls_failed st', ls_db st') =
       pending U refuses
         (process_lines U parse refuses rid resume (stream_lines_from (ls_buffer st) chunks) st)"
proof (induction chunks arbitrary: k st)
  case Nil
  then have "\<not> elapsed k > MAX_RUNTIME_MS" by (simp add: not_less)
  then show ?case
    using upsert_batch_pending [of U refuses st] by (auto simp: pending_def)
next
  case (Cons chunk chunks)
  have k: "\<not> elapsed k > MAX_RUNTIME_MS" using Cons(2) by (simp add: not_less)
  let ?lines = "split_str (ls_buffer st @ chunk) [10]"
  let ?st1 = "process_chunk U parse refuses rid resume chunk st"
  have st1: "?st1 = (process_lines U parse refuses rid resume (butlast ?lines) st)\<lparr>ls_buffer := last ?lines\<rparr>"
    by (simp add: process_chunk_def Let_def process_lines_buffer)
  have "\<forall>j. Suc k \<le> j \<and> j \<le> Suc k + length chunks \<longrightarrow> elapsed j \<le> MAX_RUNTIME_MS"
    using Cons(2) by simp
  from Cons(1) [OF this, of ?st1] obtain st' where
    1: "sync_loop U parse refuses elapsed rid resume (Suc k) (map Chunk chunks) ?st1 = (Done, st')" and
    2: "(ls_processed st', ls_failed st', ls_db st') =
       pending U refuses
         (process_lines U parse refuses rid resume (stream_lines_from (ls_buffer ?st1) chunks) ?st1)"
    by blast
  have b: "ls_buffer ?st1 = last ?lines" by (simp add: st1)
  have "process_lines U parse refuses rid resume (stream_lines_from (last ?lines) chunks) ?st1 =
        (process_lines U parse refuses rid resume (stream_lines_from (ls_buffer st) (chunk # chunks)) st)
          \<lparr>ls_buffer := last ?lines\<rparr>"
    by (simp add: st1 process_lines_buffer process_lines_append)
  then have "pending U refuses
         (process_lines U parse refuses rid resume (stream_lines_from (ls_buffer ?st1) chunks) ?st1) =
       pending U refuses
         (process_lines U parse refuses rid resume (stream_lines_from (ls_buffer st) (chunk # chunks)) st)"
    by (simp add: b pending_def)
  with 1 2 k show ?case by simp
qed

declare sync_loop.simps [simp del]

lemma upsertCardBatch_without_runs:
  assumes "without_runs db1 = without_runs db"
  shows "fst (upsertCardBatch U refuses cs db1) = fst (upsertCardBatch U refuses cs db)"
    and "fst (snd (upsertCardBatch U refuses cs db1)) = fst (snd (upsertCardBatch U refuses cs db))"
    and "without_runs (snd (snd (upsertCardBatch U refuses cs db1))) =
         without_runs (snd (snd (upsertCardBatch U refuses cs db)))"
proof -
  have "result_without_runs (upsertCardBatch U refuses cs db1) =
        result_without_runs (upsertCardBatch U refuses cs db)"
    using loop_without_runs [of U refuses cs "(0, 0, db1)"]
      loop_without_runs [of U refuses cs "(0, 0, db)"] assms
    by (simp add: upsertCardBatch_def)
  then show "fst (upsertCardBatch U refuses cs db1) = fst (upsertCardBatch U refuses cs db)"
    and "fst (snd (upsertCardBatch U refuses cs db1)) = fst (snd (upsertCardBatch U refuses cs db))"
    and "without_runs (snd (snd (upsertCardBatch U refuses cs db1))) =
         without_runs (snd (snd (upsertCardBatch U refuses cs db)))"
    by (cases "upsertCardBatch U refuses cs db1"; cases "upsertCardBatch U refuses cs db"; simp)+
qed

lemma without_runs_tables:
  "without_runs a = without_runs b \<Longrightarrow> db_cards a = db_cards b \<and> db_cardFaces a = db_cardFaces b"
  by (metis store_calls_without_runs(4,5))

lemma syncRun_update_tables:
  "db_cards (db_syncRun_update rid g db) = db_cards db"
  "db_cardFaces (db_syncRun_update rid g db) = db_cardFaces db"
  by (simp_all add: db_syncRun_update_def)

lemma resumed_run:
  assumes "find (\<lambda>r. run_id r = rid) (db_syncRuns db) = Some row"
    and "run_blobUrl row = Some url" and "url \<noteq> []"
    and "run_lastOracleId row = Some X" and "X \<noteq> []"
    and "streamBulkData url = Inr (map Chunk chunks)"
    and "\<forall>k. k \<le> length chunks \<longrightarrow> elapsed k \<le> MAX_RUNTIME_MS"
    and "stream_lines chunks = pre @ [x] @ post"
    and "\<forall>c. Record c \<in> set (map (read_line parse) pre) \<longrightarrow> sc_oracle_id c \<noteq> X"
    and "read_line parse x = Record cx" and "sc_oracle_id cx = X"
  shows "\<exists>db'. processSyncRun U parse refuses streamBulkData elapsed today rid db =
           (Inr \<lparr>sp_syncRunId = rid, sp_status = COMPLETED,
                 sp_processed = run_processed row +
                   fst (upsertCardBatch U refuses (records (map (read_line parse) post)) db),
                 sp_totalRecords = Some (run_processed row +
                   fst (upsertCardBatch U refuses (records (map (read_line parse) post)) db) +
                   (run_failed row +
                    fst (snd (upsertCardBatch U refuses (records (map (read_line parse) post)) db)) +
                    (malformed (map (read_line parse) pre) + malformed (map (read_line parse) post)))),
                 sp_lastOracleId = None\<rparr>, db') \<and>
         db_cards db' =
           db_cards (snd (snd (upsertCardBatch U refuses (records (map (read_line parse) post)) db))) \<and>
         db_cardFaces db' =
           db_cardFaces (snd (snd (upsertCardBatch U refuses (records (map (read_line parse) post)) db)))"
proof -
  let ?recs = "records (map (read_line parse) post)"
  let ?db1 = "db_syncRun_update rid (\<lambda>r. r\<lparr>run_status := PROCESSING\<rparr>) db"
  let ?st0 = "\<lparr>ls_processed = run_processed row, ls_failed = run_failed row,
               ls_lastOracleId = None, ls_shouldSkip = True, ls_buffer = [], ls_batch = [],
               ls_db = ?db1\<rparr>"
  let ?m = "malformed (map (read_line parse) pre)"
  let ?st1 = "?st0\<lparr>ls_shouldSkip := False, ls_failed := ls_failed ?st0 + ?m\<rparr>"
  have clock: "\<forall>j. 0 \<le> j \<and> j \<le> 0 + length chunks \<longrightarrow> elapsed j \<le> MAX_RUNTIME_MS"
    using assms(7) by simp
  from sync_loop_chunks [OF clock, of U parse refuses rid "Some X" ?st0] obtain st' where
    loop: "sync_loop U parse refuses elapsed rid (Some X) 0 (map Chunk chunks) ?st0 = (Done, st')"
    and core: "(ls_processed st', ls_failed st', ls_db st') =
       pending U refuses (process_lines U parse refuses rid (Some X) (pre @ [x] @ post) ?st0)"
    using assms(8) by (auto simp: stream_lines_def)
  have skip: "process_lines U parse refuses rid (Some X) (pre @ [x] @ post) ?st0 =
              process_lines U parse refuses rid None post ?st1"
    using skip_through_cursor [of ?st0 parse pre X x cx U refuses rid post] assms(9,10,11) by simp
  have p1: "pending U refuses ?st1 = (run_processed row, run_failed row + ?m, ?db1)"
    by (simp add: pending_def)
  have "result_without_runs (ls_processed st', ls_failed st', ls_db st') =
        result_without_runs
          (add_failed (malformed (map (read_line parse) post))
             (upsertCardBatch_loop U refuses ?recs (run_processed row, run_failed row + ?m, ?db1)))"
    unfolding core skip using process_lines_pending [of ?st1 U refuses parse rid post]
    by (simp only: p1) simp
  then have res: "ls_processed st' = run_processed row + fst (upsertCardBatch U refuses ?recs ?db1)"
    "ls_failed st' = run_failed row + ?m + fst (snd (upsertCardBatch U refuses ?recs ?db1)) +
       malformed (map (read_line parse) post)"
    "without_runs (ls_db st') = without_runs (snd (snd (upsertCardBatch U refuses ?recs ?db1)))"
    by (simp_all add: loop_counters)
  have w: "without_runs ?db1 = without_runs db" by simp
  note eq = upsertCardBatch_without_runs [OF w, of U refuses ?recs]
  let ?db' = "db_syncRun_update rid
                (\<lambda>r. r\<lparr>run_status := COMPLETED, run_processed := ls_processed st',
                        run_failed := ls_failed st', run_completedAt := Some today\<rparr>) (ls_db st')"
  have run: "processSyncRun U parse refuses streamBulkData elapsed today rid db =
         (Inr \<lparr>sp_syncRunId = rid, sp_status = COMPLETED, sp_processed = ls_processed st',
               sp_totalRecords = Some (ls_processed st' + ls_failed st'),
               sp_lastOracleId = None\<rparr>, ?db')"
    using assms(1-6) loop by (simp add: processSyncRun_def Let_def)
  have "without_runs (ls_db st') = without_runs (snd (snd (upsertCardBatch U refuses ?recs db)))"
    using res(3) eq(3) by simp
  then have tabs: "db_cards (ls_db st') = db_cards (snd (snd (upsertCardBatch U refuses ?recs db)))"
    "db_cardFaces (ls_db st') = db_cardFaces (snd (snd (upsertCardBatch U refuses ?recs db)))"
    using without_runs_tables by blast+
  show ?thesis
    by (rule exI [of _ ?db']) (simp add: run res(1,2) eq(1,2) tabs syncRun_update_tables)
qed

lemma example_json_ends:
  "example_json c \<noteq> []" "hd (example_json c) = 123" "last (example_json c) = 125"
  by (simp_all add: example_json_def ascii_def)

lemma example_json_distinct:
  "example_json card_a \<noteq> example_json card_b"
  "example_json card_a \<noteq> example_json card_c"
  "example_json card_b \<noteq> example_json card_c"
  by (simp_all add: example_json_def card_a_def card_b_def card_c_def example_card_def ascii_def)

lemma trim_example_json:
  "trim (example_json c) = example_json c"
  "trim (example_json c @ ascii '','') = example_json c @ ascii '',''"
  by (rule trim_fixed, simp add: example_json_ends isWhiteSpace_def ascii_def)+

lemma read_line_examples:
  "read_line parse (ascii ''['') = Ignored"
  "read_line parse (ascii '']'') = Ignored"
  "read_line parse [] = Ignored"
  "read_line parse (example_json c) = (case parse (example_json c) of None \<Rightarrow> Malformed | Some r \<Rightarrow> Record r)"
  "read_line parse (example_json c @ ascii '','') =
     (case parse (example_json c) of None \<Rightarrow> Malformed | Some r \<Rightarrow> Record r)"
proof -
  have t: "trim (ascii ''['') = ascii ''[''" "trim (ascii '']'') = ascii '']''" "trim [] = []"
    by (simp_all add: trim_def ascii_def isWhiteSpace_def)
  show "read_line parse (ascii ''['') = Ignored" "read_line parse (ascii '']'') = Ignored"
    "read_line parse [] = Ignored"
    by (simp_all add: read_line_def t)
  have n: "example_json c \<noteq> ascii ''[''" "example_json c \<noteq> ascii '']''"
    "example_json c @ ascii '','' \<noteq> ascii ''[''" "example_json c @ ascii '','' \<noteq> ascii '']''"
    using example_json_ends [of c] by (auto simp: ascii_def)
  have e: "\<not> endsWith (example_json c) (ascii '','')"
    using example_json_ends [of c]
    by (cases "example_json c" rule: rev_cases) (auto simp: endsWith_def startsWith_def ascii_def)
  have e': "endsWith (example_json c @ ascii '','') (ascii '','')"
    by (simp add: endsWith_def startsWith_def ascii_def)
  have b: "butlast (example_json c @ ascii '','') = example_json c"
    by (simp add: ascii_def butlast_append)
  show "read_line parse (example_json c) = (case parse (example_json c) of None \<Rightarrow> Malformed | Some r \<Rightarrow> Record r)"
    using n e example_json_ends(1) [of c] by (simp add: read_line_def trim_example_json)
  show "read_line parse (example_json c @ ascii '','') =
     (case parse (example_json c) of None \<Rightarrow> Malformed | Some r \<Rightarrow> Record r)"
    using n e' b example_json_ends(1) [of c] by (simp add: read_line_def trim_example_json)
qed

lemma parse_known_examples:
  "parse_known [card_a, card_b, card_c] (example_json card_a) = Some card_a"
  "parse_known [card_a, card_b, card_c] (example_json card_b) = Some card_b"
  "parse_known [card_a, card_b, card_c] (example_json card_c) = Some card_c"
  using example_json_distinct by (simp_all add: parse_known_def)

lemma split_line:
  "10 \<notin> set l \<Longrightarrow> split_from [10] 0 piece (l @ 10 # rest) = (rev piece @ l) # split_from [10] 0 [] rest"
  by (induction l arbitrary: piece) (simp_all add: startsWith_def)

lemma example_json_no_lf: "10 \<notin> set (example_json card_a)" "10 \<notin> set (example_json card_b)"
  "10 \<notin> set (example_json card_c)"
  by (simp_all add: example_json_def card_a_def card_b_def card_c_def example_card_def ascii_def)

lemma chunk_lines:
  "split_str ([] @ chunk_ab) [10] =
     [ascii ''['', example_json card_a @ ascii '','', example_json card_b @ ascii '','', []]"
  "split_str ([] @ chunk_c) [10] = [example_json card_c, ascii '']'', []]"
proof -
  have 1: "10 \<notin> set (ascii ''['')" "10 \<notin> set (ascii '']'')"
    "10 \<notin> set (example_json card_a @ ascii '','')" "10 \<notin> set (example_json card_b @ ascii '','')"
    using example_json_no_lf by (simp_all add: ascii_def)
  show "split_str ([] @ chunk_ab) [10] =
     [ascii ''['', example_json card_a @ ascii '','', example_json card_b @ ascii '','', []]"
    using split_line [OF 1(1), of "[]"] split_line [OF 1(3), of "[]"] split_line [OF 1(4), of "[]"]
    by (simp add: split_str_def chunk_ab_def)
  show "split_str ([] @ chunk_c) [10] = [example_json card_c, ascii '']'', []]"
    using split_line [OF example_json_no_lf(3), of "[]"] split_line [OF 1(2), of "[]"]
    by (simp add: split_str_def chunk_c_def)
qed

lemma stream_lines_example:
  "stream_lines [chunk_ab, chunk_c] =
     [ascii ''['', example_json card_a @ ascii '','', example_json card_b @ ascii '','',
      example_json card_c, ascii '']'']"
  using chunk_lines by (simp add: stream_lines_def)

lemma read_example_lines:
  "read_line (parse_known [card_a, card_b, card_c]) (example_json card_a @ ascii '','') = Record card_a"
  "read_line (parse_known [card_a, card_b, card_c]) (example_json card_b @ ascii '','') = Record card_b"
  "read_line (parse_known [card_a, card_b, card_c]) (example_json card_c) = Record card_c"
  by (simp_all add: read_line_examples parse_known_examples)

lemma example_ids:
  "sc_oracle_id card_a = ascii ''o-a''" "sc_oracle_id card_b = ascii ''o-b''"
  "sc_oracle_id card_c = ascii ''o-c''"
  by (simp_all add: card_a_def card_b_def card_c_def example_card_def)

lemma new_run_fields:
  "run_id new_run = ascii ''run-1''" "run_blobUrl new_run = Some (ascii ''https://data.scryfall.io/oracle-cards.json'')"
  "run_processed new_run = 0" "run_failed new_run = 0" "run_lastOracleId new_run = None"
  "run_totalRecords new_run = None"
  by (simp_all add: new_run_def)

lemma url_nonempty: "ascii ''https://data.scryfall.io/oracle-cards.json'' \<noteq> []"
  by (simp add: ascii_def)

lemma first_run_paused:
  "processSyncRun latin1 (parse_known [card_a, card_b, card_c]) accepts_all bulk_file
     late_after_first_chunk 0 (ascii ''run-1'') db_new_run =
   (Inr \<lparr>sp_syncRunId = ascii ''run-1'', sp_status = PAUSED, sp_processed = 0,
         sp_totalRecords = None, sp_lastOracleId = Some (ascii ''o-b'')\<rparr>,
    db_paused_at_b)"
proof -
  have lines: "split_str chunk_ab [10] =
     [ascii ''['', example_json card_a @ ascii '','', example_json card_b @ ascii '','', []]"
    using chunk_lines(1) by simp
  show ?thesis
    by (simp add: processSyncRun_def db_new_run_def empty_db_def new_run_fields url_nonempty
        bulk_file_def sync_loop.simps late_after_first_chunk_def MAX_RUNTIME_MS_def
        process_chunk_def lines process_line_read_line read_line_examples(1-3) read_example_lines
        push_card_def BATCH_SIZE_def example_ids db_syncRun_update_def db_paused_at_b_def Let_def)
qed

lemma upsert_examples:
  "fst (upsertCardBatch latin1 accepts_all [card_c] db) = 1"
  "fst (snd (upsertCardBatch latin1 accepts_all [card_c] db)) = 0"
  "fst (upsertCardBatch latin1 accepts_all [card_b, card_c] db) = 2"
  "fst (snd (upsertCardBatch latin1 accepts_all [card_b, card_c] db)) = 0"
  by (simp_all add: upsertCardBatch_def upsertCard_def accepts_all_def split: prod.splits)

lemma db_paused_at_b_fields:
  "db_syncRuns db_paused_at_b =
     [new_run\<lparr>run_status := PAUSED, run_lastOracleId := Some (ascii ''o-b'')\<rparr>]"
  "db_cards db_paused_at_b = []" "db_cardFaces db_paused_at_b = []" "db_nextId db_paused_at_b = 0"
  by (simp_all add: db_paused_at_b_def db_new_run_def empty_db_def)

lemma ids_distinct:
  "ascii ''o-a'' \<noteq> ascii ''o-b''" "ascii ''o-b'' \<noteq> []" "ascii ''o-a'' \<noteq> []"
  by (simp_all add: ascii_def)

lemma second_run_completes:
  "\<exists>db'. startSync_resume latin1 (parse_known [card_a, card_b, card_c]) accepts_all bulk_file
          in_time 0 (ascii ''run-1'') db_paused_at_b =
        (Inr \<lparr>sp_syncRunId = ascii ''run-1'', sp_status = COMPLETED, sp_processed = 1,
              sp_totalRecords = Some 1, sp_lastOracleId = None\<rparr>, db') \<and>
        map card_oracleId (db_cards db') = [ascii ''o-c'']"
proof -
  let ?P = "parse_known [card_a, card_b, card_c]"
  let ?row = "new_run\<lparr>run_status := PAUSED, run_lastOracleId := Some (ascii ''o-b'')\<rparr>"
  have f: "find (\<lambda>r. run_id r = ascii ''run-1'') (db_syncRuns db_paused_at_b) = Some ?row"
    by (simp add: db_paused_at_b_fields new_run_fields)
  have clock: "\<forall>k. k \<le> length [chunk_ab, chunk_c] \<longrightarrow> in_time k \<le> MAX_RUNTIME_MS"
    by (simp add: in_time_def MAX_RUNTIME_MS_def)
  have lines: "stream_lines [chunk_ab, chunk_c] =
      [ascii ''['', example_json card_a @ ascii '',''] @ [example_json card_b @ ascii '','']
        @ [example_json card_c, ascii '']'']"
    by (simp add: stream_lines_example)
  have pre: "\<forall>c. Record c \<in> set (map (read_line ?P) [ascii ''['', example_json card_a @ ascii '','']) \<longrightarrow>
              sc_oracle_id c \<noteq> ascii ''o-b''"
    by (simp add: read_line_examples(1) read_example_lines example_ids ids_distinct)
  have m: "malformed (map (read_line ?P) [ascii ''['', example_json card_a @ ascii '','']) = 0"
    "malformed (map (read_line ?P) [example_json card_c, ascii '']'']) = 0"
    "records (map (read_line ?P) [example_json card_c, ascii '']'']) = [card_c]"
    by (simp_all add: malformed_def read_line_examples(1,2) read_example_lines)
  have b: "run_blobUrl ?row = Some (ascii ''https://data.scryfall.io/oracle-cards.json'')"
    and l: "run_lastOracleId ?row = Some (ascii ''o-b'')"
    and z: "run_processed ?row = 0" "run_failed ?row = 0"
    by (simp_all add: new_run_def)
  have s: "bulk_file (ascii ''https://data.scryfall.io/oracle-cards.json'') =
             Inr (map Chunk [chunk_ab, chunk_c])"
    by (simp add: bulk_file_def)
  from resumed_run [where U = latin1 and refuses = accepts_all and today = 0 and
      streamBulkData = bulk_file and elapsed = in_time and parse = ?P and
      url = "ascii ''https://data.scryfall.io/oracle-cards.json''" and
      chunks = "[chunk_ab, chunk_c]" and X = "ascii ''o-b''" and cx = card_b and
      pre = "[ascii ''['', example_json card_a @ ascii '','']" and
      x = "example_json card_b @ ascii '',''" and post = "[example_json card_c, ascii '']'']",
      OF f b url_nonempty l ids_distinct(2) s clock lines pre read_example_lines(2) example_ids(2)]
  obtain db' where
    r: "processSyncRun latin1 ?P accepts_all bulk_file in_time 0 (ascii ''run-1'') db_paused_at_b =
          (Inr \<lparr>sp_syncRunId = ascii ''run-1'', sp_status = COMPLETED,
                 sp_processed = run_processed ?row +
                   fst (upsertCardBatch latin1 accepts_all [card_c] db_paused_at_b),
                 sp_totalRecords = Some (run_processed ?row +
                   fst (upsertCardBatch latin1 accepts_all [card_c] db_paused_at_b) +
                   (run_failed ?row +
                    fst (snd (upsertCardBatch latin1 accepts_all [card_c] db_paused_at_b)) +
                    (0 + 0))),
                 sp_lastOracleId = None\<rparr>, db')"
    and c: "db_cards db' = db_cards (snd (snd (upsertCardBatch latin1 accepts_all [card_c] db_paused_at_b)))"
    unfolding m by blast
  have r': "processSyncRun latin1 ?P accepts_all bulk_file in_time 0 (ascii ''run-1'') db_paused_at_b =
          (Inr \<lparr>sp_syncRunId = ascii ''run-1'', sp_status = COMPLETED, sp_processed = 1,
              sp_totalRecords = Some 1, sp_lastOracleId = None\<rparr>, db')"
    unfolding r z upsert_examples by simp
  have "map card_oracleId (db_cards db') = [ascii ''o-c'']"
    unfolding c
    by (simp add: upsertCardBatch_def upsertCard_def accepts_all_def db_card_upsert_def
        db_paused_at_b_fields handle_faces_def card_c_def example_card_def card_create_def)
  moreover have "startSync_resume latin1 ?P accepts_all bulk_file in_time 0 (ascii ''run-1'')
       db_paused_at_b =
     processSyncRun latin1 ?P accepts_all bulk_file in_time 0 (ascii ''run-1'') db_paused_at_b"
    by (simp add: startSync_resume_def f new_run_fields)
  ultimately show ?thesis using r' by simp
qed

text \<open>
  Claim C1 at a time-box pause. The first chunk of the bulk file carries two records; they
  are pushed to the batch, which is far from full, and \<open>lastOracleId\<close> is set as each is
  pushed. The time box is over before the second read: the run is paused and the row gets
  the cursor \<^verbatim>\<open>o-b\<close>, while no card has been upserted. The resumed run then skips both
  records and completes with only the third card stored.
\<close>

theorem pause_persists_cursor_of_unsaved_record:
  "processSyncRun latin1 (parse_known [card_a, card_b, card_c]) accepts_all bulk_file
     late_after_first_chunk 0 (ascii ''run-1'') db_new_run =
   (Inr \<lparr>sp_syncRunId = ascii ''run-1'', sp_status = PAUSED, sp_processed = 0,
         sp_totalRecords = None, sp_lastOracleId = Some (ascii ''o-b'')\<rparr>,
    db_paused_at_b) \<and>
   db_syncRuns db_paused_at_b =
     [new_run\<lparr>run_status := PAUSED, run_lastOracleId := Some (ascii ''o-b'')\<rparr>] \<and>
   db_cards db_paused_at_b = [] \<and>
   (\<exists>db'. startSync_resume latin1 (parse_known [card_a, card_b, card_c]) accepts_all bulk_file
          in_time 0 (ascii ''run-1'') db_paused_at_b =
        (Inr \<lparr>sp_syncRunId = ascii ''run-1'', sp_status = COMPLETED, sp_processed = 1,
              sp_totalRecords = Some 1, sp_lastOracleId = None\<rparr>, db') \<and>
        map card_oracleId (db_cards db') = [ascii ''o-c''])"
  using first_run_paused second_run_completes db_paused_at_b_fields(1,2) by simp

lemma db_paused_after_a_fields:
  "db_syncRuns db_paused_after_a =
     [new_run\<lparr>run_status := PAUSED, run_processed := 1,
              run_lastOracleId := Some (ascii ''o-a'')\<rparr>]"
  "db_cards db_paused_after_a = [card_create latin1 card_a 0]"
  "db_cardFaces db_paused_after_a = []" "db_nextId db_paused_after_a = 1"
  by (simp_all add: db_paused_after_a_def upsertCardBatch_def upsertCard_def accepts_all_def
      db_card_upsert_def empty_db_def handle_faces_def card_a_def example_card_def)

lemma resume_after_a_facts:
  "find (\<lambda>r. run_id r = ascii ''run-1'') (db_syncRuns db_paused_after_a) =
     Some (new_run\<lparr>run_status := PAUSED, run_processed := 1,
                   run_lastOracleId := Some (ascii ''o-a'')\<rparr>)"
  "\<forall>k. k \<le> length [chunk_ab, chunk_c] \<longrightarrow> in_time k \<le> MAX_RUNTIME_MS"
  "stream_lines [chunk_ab, chunk_c] =
      [ascii ''[''] @ [example_json card_a @ ascii '','']
        @ [example_json card_b @ ascii '','', example_json card_c, ascii '']'']"
  "\<forall>c. Record c \<in> set (map (read_line (parse_known [card_a, card_b, card_c])) [ascii ''['']) \<longrightarrow>
              sc_oracle_id c \<noteq> ascii ''o-a''"
  "bulk_file (ascii ''https://data.scryfall.io/oracle-cards.json'') =
             Inr (map Chunk [chunk_ab, chunk_c])"
  by (simp_all add: db_paused_after_a_fields new_run_fields in_time_def MAX_RUNTIME_MS_def
      stream_lines_example read_line_examples(1) bulk_file_def)

lemma resume_after_a_items:
  "malformed (map (read_line (parse_known [card_a, card_b, card_c])) [ascii ''['']) = 0"
  "malformed (map (read_line (parse_known [card_a, card_b, card_c]))
     [example_json card_b @ ascii '','', example_json card_c, ascii '']'']) = 0"
  "records (map (read_line (parse_known [card_a, card_b, card_c]))
     [example_json card_b @ ascii '','', example_json card_c, ascii '']'']) = [card_b, card_c]"
  by (simp_all add: malformed_def read_line_examples(1,2) read_example_lines)

lemma paused_row_fields:
  "run_status (new_run\<lparr>run_status := PAUSED, run_processed := 1,
                   run_lastOracleId := Some (ascii ''o-a'')\<rparr>) = PAUSED"
  "run_blobUrl (new_run\<lparr>run_status := PAUSED, run_processed := 1,
                   run_lastOracleId := Some (ascii ''o-a'')\<rparr>) =
     Some (ascii ''https://data.scryfall.io/oracle-cards.json'')"
  "run_lastOracleId (new_run\<lparr>run_status := PAUSED, run_processed := 1,
                   run_lastOracleId := Some (ascii ''o-a'')\<rparr>) = Some (ascii ''o-a'')"
  "run_processed (new_run\<lparr>run_status := PAUSED, run_processed := 1,
                   run_lastOracleId := Some (ascii ''o-a'')\<rparr>) = 1"
  "run_failed (new_run\<lparr>run_status := PAUSED, run_processed := 1,
                   run_lastOracleId := Some (ascii ''o-a'')\<rparr>) = 0"
  by (simp_all add: new_run_def)

lemma db_paused_after_b_fields:
  "db_syncRuns db_paused_after_b =
     [new_run\<lparr>run_status := PAUSED, run_processed := 2,
              run_lastOracleId := Some (ascii ''o-b'')\<rparr>]"
  "db_cards db_paused_after_b = [card_create latin1 card_a 0, card_create latin1 card_b 1]"
  "db_cardFaces db_paused_after_b = []" "db_nextId db_paused_after_b = 2"
  by (simp_all add: db_paused_after_b_def upsertCardBatch_def upsertCard_def accepts_all_def
      db_card_upsert_def empty_db_def handle_faces_def card_a_def card_b_def example_card_def
      card_create_def ascii_def)

lemma resumed_run_paused_again:
  "startSync_resume latin1 (parse_known [card_a, card_b, card_c]) accepts_all bulk_file
     late_after_first_chunk 0 (ascii ''run-1'') db_paused_after_b =
   (Inr \<lparr>sp_syncRunId = ascii ''run-1'', sp_status = PAUSED, sp_processed = 2,
         sp_totalRecords = None, sp_lastOracleId = None\<rparr>,
    db_paused_again)"
proof -
  have lines: "split_str chunk_ab [10] =
     [ascii ''['', example_json card_a @ ascii '','', example_json card_b @ ascii '','', []]"
    using chunk_lines(1) by simp
  show ?thesis
    by (simp add: startSync_resume_def processSyncRun_def db_paused_after_b_fields
        db_paused_again_def new_run_fields url_nonempty ids_distinct
        bulk_file_def sync_loop.simps late_after_first_chunk_def MAX_RUNTIME_MS_def
        process_chunk_def lines process_line_read_line read_line_examples(1-3) read_example_lines
        example_ids db_syncRun_update_def Let_def)
qed

lemma db_paused_again_fields:
  "db_syncRuns db_paused_again =
     [new_run\<lparr>run_status := PAUSED, run_processed := 2, run_lastOracleId := None\<rparr>]"
  "db_cards db_paused_again = [card_create latin1 card_a 0, card_create latin1 card_b 1]"
  "db_cardFaces db_paused_again = []" "db_nextId db_paused_again = 2"
  by (simp_all add: db_paused_again_def db_paused_after_b_fields)

lemma example_no_faces:
  "sc_card_faces card_a = None" "sc_card_faces card_b = None" "sc_card_faces card_c = None"
  by (simp_all add: card_a_def card_b_def card_c_def example_card_def)

lemma upsert_all_again:
  assumes "db_cards db = [card_create latin1 card_a 0, card_create latin1 card_b 1]"
  shows "fst (upsertCardBatch latin1 accepts_all [card_a, card_b, card_c] db) = 3"
    and "fst (snd (upsertCardBatch latin1 accepts_all [card_a, card_b, card_c] db)) = 0"
    and "map card_oracleId
           (db_cards (snd (snd (upsertCardBatch latin1 accepts_all [card_a, card_b, card_c] db)))) =
         [ascii ''o-a'', ascii ''o-b'', ascii ''o-c'']"
    and "db_syncRuns (snd (snd (upsertCardBatch latin1 accepts_all [card_a, card_b, card_c] db))) =
         db_syncRuns db"
proof -
  have ne: "ascii ''o-b'' \<noteq> ascii ''o-a''" "ascii ''o-c'' \<noteq> ascii ''o-a''"
    "ascii ''o-c'' \<noteq> ascii ''o-b''"
    by (simp_all add: ascii_def)
  show "fst (upsertCardBatch latin1 accepts_all [card_a, card_b, card_c] db) = 3"
    and "fst (snd (upsertCardBatch latin1 accepts_all [card_a, card_b, card_c] db)) = 0"
    by (simp_all add: upsertCardBatch_def upsertCard_def accepts_all_def split: prod.splits)
  show "map card_oracleId
           (db_cards (snd (snd (upsertCardBatch latin1 accepts_all [card_a, card_b, card_c] db)))) =
         [ascii ''o-a'', ascii ''o-b'', ascii ''o-c'']"
    using ne
    by (simp add: upsertCardBatch_def upsertCard_def accepts_all_def db_card_upsert_def assms
        handle_faces_def example_no_faces example_ids card_create_key card_update_keeps)
  show "db_syncRuns (snd (snd (upsertCardBatch latin1 accepts_all [card_a, card_b, card_c] db))) =
         db_syncRuns db"
    by (simp add: upsertCardBatch_def upsertCard_def accepts_all_def db_card_upsert_def assms
        handle_faces_def example_no_faces example_ids card_create_key card_update_keeps
        split: option.splits)
qed

lemma upsert_batch_fields:
  "ls_processed (upsert_batch U refuses st) =
     ls_processed st + fst (upsertCardBatch U refuses (ls_batch st) (ls_db st))"
  "ls_failed (upsert_batch U refuses st) =
     ls_failed st + fst (snd (upsertCardBatch U refuses (ls_batch st) (ls_db st)))"
  "ls_db (upsert_batch U refuses st) = snd (snd (upsertCardBatch U refuses (ls_batch st) (ls_db st)))"
  by (simp_all add: upsert_batch_def split: prod.splits)

lemma loop_without_cursor:
  "sync_loop latin1 (parse_known [card_a, card_b, card_c]) accepts_all in_time (ascii ''run-1'')
     None 0 [Chunk chunk_ab, Chunk chunk_c]
     \<lparr>ls_processed = p, ls_failed = f, ls_lastOracleId = None, ls_shouldSkip = False,
      ls_buffer = [], ls_batch = [], ls_db = db\<rparr> =
   (Done, upsert_batch latin1 accepts_all
     \<lparr>ls_processed = p, ls_failed = f, ls_lastOracleId = Some (ascii ''o-c''),
      ls_shouldSkip = False, ls_buffer = [], ls_batch = [card_a, card_b, card_c], ls_db = db\<rparr>)"
proof -
  have lines: "split_str chunk_ab [10] =
     [ascii ''['', example_json card_a @ ascii '','', example_json card_b @ ascii '','', []]"
    "split_str chunk_c [10] = [example_json card_c, ascii '']'', []]"
    using chunk_lines by simp_all
  show ?thesis
    by (simp add: sync_loop.simps in_time_def MAX_RUNTIME_MS_def
        process_chunk_def lines process_line_read_line read_line_examples(1-3) read_example_lines
        push_card_def BATCH_SIZE_def example_ids Let_def)
qed

lemma second_resume_counts_again:
  "fst (startSync_resume latin1 (parse_known [card_a, card_b, card_c]) accepts_all bulk_file
          in_time 0 (ascii ''run-1'') db_paused_again) =
     Inr \<lparr>sp_syncRunId = ascii ''run-1'', sp_status = COMPLETED, sp_processed = 5,
          sp_totalRecords = Some 5, sp_lastOracleId = None\<rparr>"
  "map card_oracleId (db_cards (snd (startSync_resume latin1 (parse_known [card_a, card_b, card_c])
          accepts_all bulk_file in_time 0 (ascii ''run-1'') db_paused_again))) =
     [ascii ''o-a'', ascii ''o-b'', ascii ''o-c'']"
  "map run_processed (db_syncRuns (snd (startSync_resume latin1
          (parse_known [card_a, card_b, card_c]) accepts_all bulk_file in_time 0
          (ascii ''run-1'') db_paused_again))) = [5]"
proof -
  let ?db1 = "db_syncRun_update (ascii ''run-1'') (\<lambda>r. r\<lparr>run_status := PROCESSING\<rparr>)
                db_paused_again"
  have c: "db_cards ?db1 = [card_create latin1 card_a 0, card_create latin1 card_b 1]"
    by (simp add: syncRun_update_tables db_paused_again_fields)
  note u = upsert_all_again [OF c]
  have r: "db_syncRuns ?db1 =
     [new_run\<lparr>run_status := PROCESSING, run_processed := 2, run_lastOracleId := None\<rparr>]"
    by (simp add: db_syncRun_update_def db_paused_again_fields new_run_fields)
  show "fst (startSync_resume latin1 (parse_known [card_a, card_b, card_c]) accepts_all bulk_file
          in_time 0 (ascii ''run-1'') db_paused_again) =
     Inr \<lparr>sp_syncRunId = ascii ''run-1'', sp_status = COMPLETED, sp_processed = 5,
          sp_totalRecords = Some 5, sp_lastOracleId = None\<rparr>"
    by (simp add: startSync_resume_def processSyncRun_def db_paused_again_fields
        new_run_fields url_nonempty bulk_file_def loop_without_cursor upsert_batch_fields u
        Let_def)
  show "map card_oracleId (db_cards (snd (startSync_resume latin1 (parse_known [card_a, card_b, card_c])
          accepts_all bulk_file in_time 0 (ascii ''run-1'') db_paused_again))) =
     [ascii ''o-a'', ascii ''o-b'', ascii ''o-c'']"
    using u(3)
    by (simp add: startSync_resume_def processSyncRun_def db_paused_again_fields
        new_run_fields url_nonempty bulk_file_def loop_without_cursor upsert_batch_fields
        syncRun_update_tables Let_def)
  show "map run_processed (db_syncRuns (snd (startSync_resume latin1
          (parse_known [card_a, card_b, card_c]) accepts_all bulk_file in_time 0
          (ascii ''run-1'') db_paused_again))) = [5]"
    using u(1,2,4) r
    by (simp add: startSync_resume_def processSyncRun_def db_paused_again_fields
        new_run_fields url_nonempty bulk_file_def loop_without_cursor upsert_batch_fields
        db_syncRun_update_def Let_def)
qed

lemma resume_after_b_completes:
  "fst (startSync_resume latin1 (parse_known [card_a, card_b, card_c]) accepts_all bulk_file
          in_time 0 (ascii ''run-1'') db_paused_after_b) =
     Inr \<lparr>sp_syncRunId = ascii ''run-1'', sp_status = COMPLETED, sp_processed = 3,
          sp_totalRecords = Some 3, sp_lastOracleId = None\<rparr>"
proof -
  let ?P = "parse_known [card_a, card_b, card_c]"
  let ?row = "new_run\<lparr>run_status := PAUSED, run_processed := 2,
                      run_lastOracleId := Some (ascii ''o-b'')\<rparr>"
  have f: "find (\<lambda>r. run_id r = ascii ''run-1'') (db_syncRuns db_paused_after_b) = Some ?row"
    by (simp add: db_paused_after_b_fields new_run_fields)
  have clock: "\<forall>k. k \<le> length [chunk_ab, chunk_c] \<longrightarrow> in_time k \<le> MAX_RUNTIME_MS"
    by (simp add: in_time_def MAX_RUNTIME_MS_def)
  have lines: "stream_lines [chunk_ab, chunk_c] =
      [ascii ''['', example_json card_a @ ascii '',''] @ [example_json card_b @ ascii '','']
        @ [example_json card_c, ascii '']'']"
    by (simp add: stream_lines_example)
  have pre: "\<forall>c. Record c \<in> set (map (read_line ?P) [ascii ''['', example_json card_a @ ascii '','']) \<longrightarrow>
              sc_oracle_id c \<noteq> ascii ''o-b''"
    by (simp add: read_line_examples(1) read_example_lines example_ids ids_distinct)
  have m: "malformed (map (read_line ?P) [ascii ''['', example_json card_a @ ascii '','']) = 0"
    "malformed (map (read_line ?P) [example_json card_c, ascii '']'']) = 0"
    "records (map (read_line ?P) [example_json card_c, ascii '']'']) = [card_c]"
    by (simp_all add: malformed_def read_line_examples(1,2) read_example_lines)
  have b: "run_blobUrl ?row = Some (ascii ''https://data.scryfall.io/oracle-cards.json'')"
    and l: "run_lastOracleId ?row = Some (ascii ''o-b'')"
    and z: "run_processed ?row = 2" "run_failed ?row = 0" "run_status ?row = PAUSED"
      "run_id ?row = ascii ''run-1''"
    by (simp_all add: new_run_def)
  have s: "bulk_file (ascii ''https://data.scryfall.io/oracle-cards.json'') =
             Inr (map Chunk [chunk_ab, chunk_c])"
    by (simp add: bulk_file_def)
  from resumed_run [where U = latin1 and refuses = accepts_all and today = 0 and
      streamBulkData = bulk_file and elapsed = in_time and parse = ?P and
      url = "ascii ''https://data.scryfall.io/oracle-cards.json''" and
      chunks = "[chunk_ab, chunk_c]" and X = "ascii ''o-b''" and cx = card_b and
      pre = "[ascii ''['', example_json card_a @ ascii '','']" and
      x = "example_json card_b @ ascii '',''" and post = "[example_json card_c, ascii '']'']",
      OF f b url_nonempty l ids_distinct(2) s clock lines pre read_example_lines(2) example_ids(2)]
  obtain db' where
    r: "processSyncRun latin1 ?P accepts_all bulk_file in_time 0 (ascii ''run-1'') db_paused_after_b =
          (Inr \<lparr>sp_syncRunId = ascii ''run-1'', sp_status = COMPLETED,
                 sp_processed = run_processed ?row +
                   fst (upsertCardBatch latin1 accepts_all [card_c] db_paused_after_b),
                 sp_totalRecords = Some (run_processed ?row +
                   fst (upsertCardBatch latin1 accepts_all [card_c] db_paused_after_b) +
                   (run_failed ?row +
                    fst (snd (upsertCardBatch latin1 accepts_all [card_c] db_paused_after_b)) +
                    (0 + 0))),
                 sp_lastOracleId = None\<rparr>, db')"
    unfolding m by blast
  have "startSync_resume latin1 ?P accepts_all bulk_file in_time 0 (ascii ''run-1'')
       db_paused_after_b =
     processSyncRun latin1 ?P accepts_all bulk_file in_time 0 (ascii ''run-1'') db_paused_after_b"
    by (simp add: startSync_resume_def f z)
  then show ?thesis unfolding r z upsert_examples by simp
qed

text \<open>
  Claim C2 at a second pause. Run-1 is paused with the first two records of the stream
  committed and the cursor on the second. Resumed with time enough, it skips the two,
  upserts the third and completes with \<open>processed = 3\<close>, as the claim says; \<open>resumed_run\<close>
  shows the same of every resumed invocation that reaches the end of its stream. But a
  resumed invocation starts with \<open>lastOracleId\<close> being \<^verbatim>\<open>null\<close> and sets it only when it
  pushes a record. Here the time box is over after the first chunk, in which both records
  were skipped: the pause writes \<^verbatim>\<open>null\<close> over the cursor. The next resume finds no cursor
  and skips nothing: the two records committed before are upserted and counted once more,
  and the run completes with \<open>processed = 5\<close> on a stream of three records.
\<close>

theorem second_pause_loses_cursor:
  "db_syncRuns db_paused_after_b =
     [new_run\<lparr>run_status := PAUSED, run_processed := 2,
              run_lastOracleId := Some (ascii ''o-b'')\<rparr>] \<and>
   map card_oracleId (db_cards db_paused_after_b) = [ascii ''o-a'', ascii ''o-b''] \<and>
   records (map (read_line (parse_known [card_a, card_b, card_c]))
     (stream_lines [chunk_ab, chunk_c])) = [card_a, card_b, card_c] \<and>
   fst (startSync_resume latin1 (parse_known [card_a, card_b, card_c]) accepts_all bulk_file
          in_time 0 (ascii ''run-1'') db_paused_after_b) =
     Inr \<lparr>sp_syncRunId = ascii ''run-1'', sp_status = COMPLETED, sp_processed = 3,
          sp_totalRecords = Some 3, sp_lastOracleId = None\<rparr> \<and>
   startSync_resume latin1 (parse_known [card_a, card_b, card_c]) accepts_all bulk_file
     late_after_first_chunk 0 (ascii ''run-1'') db_paused_after_b =
     (Inr \<lparr>sp_syncRunId = ascii ''run-1'', sp_status = PAUSED, sp_processed = 2,
           sp_totalRecords = None, sp_lastOracleId = None\<rparr>,
      db_paused_again) \<and>
   db_syncRuns db_paused_again =
     [new_run\<lparr>run_status := PAUSED, run_processed := 2, run_lastOracleId := None\<rparr>] \<and>
   fst (startSync_resume latin1 (parse_known [card_a, card_b, card_c]) accepts_all bulk_file
          in_time 0 (ascii ''run-1'') db_paused_again) =
     Inr \<lparr>sp_syncRunId = ascii ''run-1'', sp_status = COMPLETED, sp_processed = 5,
          sp_totalRecords = Some 5, sp_lastOracleId = None\<rparr> \<and>
   map card_oracleId (db_cards (snd (startSync_resume latin1 (parse_known [card_a, card_b, card_c])
          accepts_all bulk_file in_time 0 (ascii ''run-1'') db_paused_again))) =
     [ascii ''o-a'', ascii ''o-b'', ascii ''o-c''] \<and>
   map run_processed (db_syncRuns (snd (startSync_resume latin1
          (parse_known [card_a, card_b, card_c]) accepts_all bulk_file in_time 0
          (ascii ''run-1'') db_paused_again))) = [5]"
proof -
  have 1: "map card_oracleId (db_cards db_paused_after_b) = [ascii ''o-a'', ascii ''o-b'']"
    by (simp add: db_paused_after_b_fields card_create_key example_ids)
  have 2: "records (map (read_line (parse_known [card_a, card_b, card_c]))
     (stream_lines [chunk_ab, chunk_c])) = [card_a, card_b, card_c]"
    by (simp add: stream_lines_example read_line_examples(1,2) read_example_lines)
  show ?thesis
    using db_paused_after_b_fields(1) 1 2 resume_after_b_completes resumed_run_paused_again
      db_paused_again_fields(1) second_resume_counts_again
    by (simp only: simp_thms)
qed

text \<open>
  Claim C3, as the code has it. While a run resumes with a cursor, every line is
  discarded without touching the batch, the store or \<open>processed\<close> (a malformed line still
  adds to \<open>failed\<close>) up to and including the first record whose \<open>oracle_id\<close> equals the
  cursor: the matching record is discarded too, it only ends the skipping. The lines after
  it are processed as in a run that does not resume.
\<close>

theorem resume_skips_through_cursor:
  assumes "ls_shouldSkip st"
    and "\<forall>c. Record c \<in> set (map (read_line parse) pre) \<longrightarrow> sc_oracle_id c \<noteq> X"
    and "read_line parse x = Record cx" and "sc_oracle_id cx = X"
  shows "process_lines U parse refuses rid (Some X) (pre @ [x]) st =
           st\<lparr>ls_shouldSkip := False,
              ls_failed := ls_failed st + malformed (map (read_line parse) pre)\<rparr> \<and>
         process_lines U parse refuses rid (Some X) (pre @ [x] @ post) st =
           process_lines U parse refuses rid None post
             (st\<lparr>ls_shouldSkip := False,
                 ls_failed := ls_failed st + malformed (map (read_line parse) pre)\<rparr>)"
  using assms by (rule skip_through_cursor)

text \<open>
  The claim as stated has the matching record itself processed. Run-1 was paused after
  \<open>card_a\<close> was committed, with the cursor on it. On resuming, the line of \<open>card_a\<close> only
  ends the skipping: nothing is pushed to the batch and nothing is upserted for it. The
  whole resumed run then counts the two records after it, 3 in all and not 4.
\<close>

theorem matching_record_is_discarded:
  "process_lines latin1 (parse_known [card_a, card_b, card_c]) accepts_all (ascii ''run-1'')
     (Some (ascii ''o-a'')) [ascii ''['', example_json card_a @ ascii '',''] resuming_after_a =
     resuming_after_a\<lparr>ls_shouldSkip := False\<rparr> \<and>
   ls_batch resuming_after_a = [] \<and>
   fst (startSync_resume latin1 (parse_known [card_a, card_b, card_c]) accepts_all bulk_file
          in_time 0 (ascii ''run-1'') db_paused_after_a) =
     Inr \<lparr>sp_syncRunId = ascii ''run-1'', sp_status = COMPLETED, sp_processed = 3,
          sp_totalRecords = Some 3, sp_lastOracleId = None\<rparr>"
proof -
  let ?P = "parse_known [card_a, card_b, card_c]"
  have 1: "process_lines latin1 ?P accepts_all (ascii ''run-1'')
     (Some (ascii ''o-a'')) [ascii ''['', example_json card_a @ ascii '',''] resuming_after_a =
     resuming_after_a\<lparr>ls_shouldSkip := False\<rparr>"
    by (simp add: process_line_read_line read_line_examples(1) read_example_lines example_ids
        resuming_after_a_def)
  have 2: "ls_batch resuming_after_a = []" by (simp add: resuming_after_a_def)
  from resumed_run [where U = latin1 and refuses = accepts_all and today = 0 and
      streamBulkData = bulk_file and elapsed = in_time and parse = ?P and
      url = "ascii ''https://data.scryfall.io/oracle-cards.json''" and
      chunks = "[chunk_ab, chunk_c]" and X = "ascii ''o-a''" and cx = card_a and
      pre = "[ascii ''['']" and x = "example_json card_a @ ascii '',''" and
      post = "[example_json card_b @ ascii '','', example_json card_c, ascii '']'']",
      OF resume_after_a_facts(1) paused_row_fields(2) url_nonempty paused_row_fields(3)
        ids_distinct(3) resume_after_a_facts(5,2,3,4) read_example_lines(1) example_ids(1)]
  obtain db' where
    r: "processSyncRun latin1 ?P accepts_all bulk_file in_time 0 (ascii ''run-1'') db_paused_after_a =
          (Inr \<lparr>sp_syncRunId = ascii ''run-1'', sp_status = COMPLETED,
                 sp_processed = 1 + fst (upsertCardBatch latin1 accepts_all [card_b, card_c] db_paused_after_a),
                 sp_totalRecords = Some (1 +
                   fst (upsertCardBatch latin1 accepts_all [card_b, card_c] db_paused_after_a) +
                   (0 + fst (snd (upsertCardBatch latin1 accepts_all [card_b, card_c] db_paused_after_a)) +
                    (0 + 0))),
                 sp_lastOracleId = None\<rparr>, db')"
    unfolding resume_after_a_items paused_row_fields by blast
  have "startSync_resume latin1 ?P accepts_all bulk_file in_time 0 (ascii ''run-1'')
       db_paused_after_a =
     processSyncRun latin1 ?P accepts_all bulk_file in_time 0 (ascii ''run-1'') db_paused_after_a"
    by (simp add: startSync_resume_def resume_after_a_facts(1) paused_row_fields new_run_fields)
  then have 3: "fst (startSync_resume latin1 ?P accepts_all bulk_file
          in_time 0 (ascii ''run-1'') db_paused_after_a) =
     Inr \<lparr>sp_syncRunId = ascii ''run-1'', sp_status = COMPLETED, sp_processed = 3,
          sp_totalRecords = Some 3, sp_lastOracleId = None\<rparr>"
    unfolding r upsert_examples by simp
  from 1 2 3 show ?thesis by (simp only: simp_thms)
qed

theorem resume_skips_through_cursor_witness:
  "ls_shouldSkip resuming_after_a \<and>
   read_line (parse_known [card_a, card_b, card_c]) (example_json card_a @ ascii '','') =
     Record card_a \<and>
   sc_oracle_id card_a = ascii ''o-a'' \<and>
   process_lines latin1 (parse_known [card_a, card_b, card_c]) accepts_all (ascii ''run-1'')
     (Some (ascii ''o-a''))
     ([ascii ''[''] @ [example_json card_a @ ascii '',''] @ [example_json card_b @ ascii '',''])
     resuming_after_a =
     resuming_after_a\<lparr>ls_shouldSkip := False, ls_batch := [card_b],
                       ls_lastOracleId := Some (ascii ''o-b'')\<rparr>"
proof -
  let ?P = "parse_known [card_a, card_b, card_c]"
  have s: "ls_shouldSkip resuming_after_a" by (simp add: resuming_after_a_def)
  have m: "malformed (map (read_line ?P) [ascii ''['']) = 0"
    by (rule resume_after_a_items)
  have rest: "process_lines latin1 ?P accepts_all (ascii ''run-1'') None
       [example_json card_b @ ascii '','']
       (resuming_after_a\<lparr>ls_shouldSkip := False, ls_failed := ls_failed resuming_after_a + 0\<rparr>) =
     resuming_after_a\<lparr>ls_shouldSkip := False, ls_batch := [card_b],
                       ls_lastOracleId := Some (ascii ''o-b'')\<rparr>"
    by (simp add: process_line_read_line read_example_lines push_card_def BATCH_SIZE_def
        example_ids resuming_after_a_def)
  from resume_skips_through_cursor [where U = latin1 and refuses = accepts_all and parse = ?P and
      rid = "ascii ''run-1''" and st = resuming_after_a and X = "ascii ''o-a''" and cx = card_a and
      pre = "[ascii ''['']" and x = "example_json card_a @ ascii '',''" and
      post = "[example_json card_b @ ascii '','']",
      OF s resume_after_a_facts(4) read_example_lines(1) example_ids(1)]
  have "process_lines latin1 ?P accepts_all (ascii ''run-1'') (Some (ascii ''o-a''))
     ([ascii ''[''] @ [example_json card_a @ ascii '',''] @ [example_json card_b @ ascii '',''])
     resuming_after_a =
     resuming_after_a\<lparr>ls_shouldSkip := False, ls_batch := [card_b],
                       ls_lastOracleId := Some (ascii ''o-b'')\<rparr>"
    unfolding m rest by blast
  with s read_example_lines(1) example_ids(1) show ?thesis by (simp only: simp_thms)
qed

end
